theory Spec2Isabelle
  imports Complex_Main "HOL-Library.Multiset" "HOL-Library.Stream"
begin

section \<open>The random number generator of numpy\<close>

text \<open>
  \<^verbatim>\<open>train_sleep_model.py\<close> draws every number from numpy's process-wide generator.
  numpy is not part of the repository, so the state of the generator is the stream of
  standard variates it will hand out next, and each \<^verbatim>\<open>np.random\<close> call takes the head
  of the stream and returns the rest as the new state:
  \<^item> \<^verbatim>\<open>random()\<close> returns the variate itself (a number in \<open>[0,1)\<close>),
  \<^item> \<^verbatim>\<open>uniform(low, high)\<close> returns \<open>low + (high - low) * u\<close>,
  \<^item> \<^verbatim>\<open>normal(loc, scale)\<close> returns \<open>loc + scale * z\<close>,
  \<^item> \<^verbatim>\<open>exponential(scale)\<close> returns \<open>scale * e\<close> (with \<open>0 \<le> e\<close>),
  \<^item> \<^verbatim>\<open>choice(a, p=p)\<close> inverts the cumulative sums of \<open>p\<close> at a uniform variate.
  Python floats are modelled as reals.
\<close>

type_synonym rng = "real stream"

definition random_sample :: "rng \<Rightarrow> real \<times> rng" where
  "random_sample g = (shd g, stl g)"

definition uniform :: "real \<Rightarrow> real \<Rightarrow> rng \<Rightarrow> real \<times> rng" where
  "uniform low high g = (low + (high - low) * shd g, stl g)"

definition normal :: "real \<Rightarrow> real \<Rightarrow> rng \<Rightarrow> real \<times> rng" where
  "normal loc scale g = (loc + scale * shd g, stl g)"

definition exponential :: "real \<Rightarrow> rng \<Rightarrow> real \<times> rng" where
  "exponential scale g = (scale * shd g, stl g)"

fun cumsum :: "real \<Rightarrow> real list \<Rightarrow> real list" where
  "cumsum acc [] = []"
| "cumsum acc (p # ps) = (acc + p) # cumsum (acc + p) ps"

text \<open>\<^verbatim>\<open>cdf.searchsorted(u, side='right')\<close>: the number of leading entries \<open>\<le> u\<close>.\<close>

fun searchsorted :: "real list \<Rightarrow> real \<Rightarrow> nat" where
  "searchsorted [] u = 0"
| "searchsorted (c # cs) u = (if u < c then 0 else Suc (searchsorted cs u))"

text \<open>
  The index found is below \<open>length a\<close> for every \<open>u < 1\<close>, since the last cumulative
  sum is 1; it is clipped to the last entry for a variate outside \<open>[0,1)\<close>.
\<close>

definition choice :: "int list \<Rightarrow> real list \<Rightarrow> rng \<Rightarrow> int \<times> rng" where
  "choice a p g = (a ! min (searchsorted (cumsum 0 p) (shd g)) (length a - 1), stl g)"

section \<open>The sample generator\<close>

record sample =
  heartRate :: real
  hrv :: real
  movement :: real
  bloodOxygen :: real
  temperature :: real
  breathingRate :: real
  timeOfNight :: real
  previousStage :: int
  stage :: int

text \<open>
  The seven draws every branch of the \<^verbatim>\<open>if time_of_night < ...\<close> chain makes, in the
  order of the source: stage, heart rate, hrv, movement, blood oxygen, temperature,
  breathing rate. The branches differ in the constants only: the classes and their
  probabilities, mean and deviation of each normal draw, the scale of the exponential one.
\<close>

record base_values =
  b_stage :: int
  b_heart_rate :: real
  b_hrv :: real
  b_movement :: real
  b_blood_oxygen :: real
  b_temperature :: real
  b_breathing_rate :: real

definition phase_draws ::
  "int list \<Rightarrow> real list \<Rightarrow> real \<times> real \<Rightarrow> real \<times> real \<Rightarrow> real \<Rightarrow> real \<times> real \<Rightarrow>
   real \<times> real \<Rightarrow> real \<times> real \<Rightarrow> rng \<Rightarrow> base_values \<times> rng" where
  "phase_draws a p hr hv mv bo te br g0 =
     (let (stage, g1) = choice a p g0;
          (heart_rate, g2) = normal (fst hr) (snd hr) g1;
          (hrv, g3) = normal (fst hv) (snd hv) g2;
          (movement, g4) = exponential mv g3;
          (blood_oxygen, g5) = normal (fst bo) (snd bo) g4;
          (temperature, g6) = normal (fst te) (snd te) g5;
          (breathing_rate, g7) = normal (fst br) (snd br) g6
      in (\<lparr>b_stage = stage, b_heart_rate = heart_rate, b_hrv = hrv, b_movement = movement,
           b_blood_oxygen = blood_oxygen, b_temperature = temperature,
           b_breathing_rate = breathing_rate\<rparr>, g7))"

text \<open>
  The \<^verbatim>\<open>if time_of_night < 1 ... elif ... else\<close> chain (lines 29 to 63): the phase is
  chosen by \<open>time_of_night\<close> alone, and the base values are drawn with its constants.
\<close>

definition base_values_of :: "real \<Rightarrow> rng \<Rightarrow> base_values \<times> rng" where
  "base_values_of time_of_night g1 =
     (if time_of_night < 1 then
        phase_draws [0, 1] [0.3, 0.7] (65, 8) (35, 10) 0.3 (96, 1.5) (36.8, 0.3) (14, 2) g1
      else if time_of_night < 3 then
        phase_draws [1, 2] [0.4, 0.6] (55, 6) (45, 8) 0.1 (97, 1) (36.5, 0.2) (12, 1.5) g1
      else if time_of_night < 5 then
        phase_draws [1, 3] [0.3, 0.7] (60, 10) (40, 12) 0.2 (96.5, 1.2) (36.7, 0.4) (16, 3) g1
      else
        phase_draws [0, 1, 2, 3] [0.2, 0.4, 0.2, 0.2] (62, 9) (38, 11) 0.25 (96.8, 1.3)
          (36.6, 0.3) (15, 2.5) g1)"

text \<open>One iteration of the loop of \<^verbatim>\<open>generate_synthetic_sleep_data\<close> (lines 26 to 86).\<close>

definition generate_sample :: "rng \<Rightarrow> sample \<times> rng" where
  "generate_sample g0 =
     (let (time_of_night, g1) = uniform 0 8 g0;
          (b, g2) = base_values_of time_of_night g1;
          (n1, g3) = normal 0 3 g2;
          heart_rate = max 40 (min 100 (b_heart_rate b + n1));
          (n2, g4) = normal 0 5 g3;
          hrv = max 10 (min 80 (b_hrv b + n2));
          (n3, g5) = normal 0 0.1 g4;
          movement = min 1.0 (b_movement b + n3);
          (n4, g6) = normal 0 0.5 g5;
          blood_oxygen = max 90 (min 100 (b_blood_oxygen b + n4));
          (n5, g7) = normal 0 0.1 g6;
          temperature = max 35.5 (min 37.5 (b_temperature b + n5));
          (n6, g8) = normal 0 1 g7;
          breathing_rate = max 8 (min 25 (b_breathing_rate b + n6));
          (r, g9) = random_sample g8;
          previous_stage = (if r > 0.3 then (b_stage b - 1) mod 4 else b_stage b)
      in (\<lparr>heartRate = heart_rate, hrv = hrv, movement = movement,
           bloodOxygen = blood_oxygen, temperature = temperature,
           breathingRate = breathing_rate, timeOfNight = time_of_night,
           previousStage = previous_stage, stage = b_stage b\<rparr>, g9))"

text \<open>The loop \<^verbatim>\<open>for i in range(n_samples)\<close>, appending one sample per iteration.\<close>

fun sample_loop :: "nat \<Rightarrow> rng \<Rightarrow> sample list \<Rightarrow> sample list \<times> rng" where
  "sample_loop 0 g data = (data, g)"
| "sample_loop (Suc k) g data =
     (let (s, g') = generate_sample g in sample_loop k g' (data @ [s]))"

text \<open>
  \<^verbatim>\<open>generate_synthetic_sleep_data(n_samples)\<close>. The generator is process-wide state, so
  the function takes the state it finds and returns the one it leaves. Its first statement,
  \<^verbatim>\<open>np.random.seed(42)\<close>, replaces the state by the seeded one; \<open>np_seed\<close> stands for
  numpy's seeding function.
\<close>

definition generate_synthetic_sleep_data ::
  "(int \<Rightarrow> rng) \<Rightarrow> nat \<Rightarrow> rng \<Rightarrow> sample list \<times> rng" where
  "generate_synthetic_sleep_data np_seed n_samples g = sample_loop n_samples (np_seed 42) []"

section \<open>Errors\<close>

text \<open>
  The two exceptions the pipeline can raise before training: \<^verbatim>\<open>KeyError\<close> with the
  missing key, from subscripting a dictionary (or with its message, from selecting columns a
  frame does not have), and \<^verbatim>\<open>ValueError\<close> with its message, from the splitter.
\<close>

datatype error = KeyError string | ValueError string

section \<open>The stratified splitter\<close>

text \<open>The state of \<^verbatim>\<open>RandomState(42)\<close>: the raw integers it will hand out next.\<close>

type_synonym random_state = "nat stream"

text \<open>
  \<^verbatim>\<open>rng.permutation(x)\<close> shuffles a copy of \<open>x\<close>: for \<open>i\<close> from the last position down
  to 1, the entry at \<open>i\<close> is swapped with the entry at a position drawn in \<open>[0, i]\<close>.
\<close>

fun shuffle :: "nat \<Rightarrow> 'a list \<Rightarrow> random_state \<Rightarrow> 'a list \<times> random_state" where
  "shuffle 0 xs g = (xs, g)"
| "shuffle (Suc i) xs g =
     (let j = shd g mod Suc (Suc i)
      in shuffle i (xs[Suc i := xs ! j, j := xs ! Suc i]) (stl g))"

definition permutation :: "'a list \<Rightarrow> random_state \<Rightarrow> 'a list \<times> random_state" where
  "permutation xs g = shuffle (length xs - 1) xs g"

text \<open>\<^verbatim>\<open>rng.choice(a, size=n, replace=False)\<close>: the first \<open>n\<close> entries of a shuffle.\<close>

definition choice_without_replacement ::
  "'a list \<Rightarrow> nat \<Rightarrow> random_state \<Rightarrow> 'a list \<times> random_state" where
  "choice_without_replacement a n g = (let (p, g') = permutation a g in (take n p, g'))"

text \<open>\<^verbatim>\<open>a.take(idx, mode="clip")\<close>: an index beyond the end reads the last entry.\<close>

definition take_clip :: "'a list \<Rightarrow> nat list \<Rightarrow> 'a list" where
  "take_clip a idx = map (\<lambda>k. a ! min k (length a - 1)) idx"

text \<open>
  The loop of \<^verbatim>\<open>_approximate_mode\<close> over the distinct remainders, largest first: the
  classes whose remainder is the current value each get one more draw, all of them when
  that many draws are still to add, a random choice among them otherwise; the loop stops
  when nothing is left to add.
\<close>

fun add_by_remainder ::
  "real list \<Rightarrow> real list \<Rightarrow> nat list \<Rightarrow> nat \<Rightarrow> random_state \<Rightarrow> nat list \<times> random_state" where
  "add_by_remainder remainder [] floored need_to_add g = (floored, g)"
| "add_by_remainder remainder (v # values) floored need_to_add g =
     (let inds = filter (\<lambda>i. remainder ! i = v) [0..<length remainder];
          add_now = min (length inds) need_to_add;
          (chosen, g') = choice_without_replacement inds add_now g;
          floored' = map (\<lambda>i. if i \<in> set chosen then floored ! i + 1 else floored ! i)
                       [0..<length floored];
          need_to_add' = need_to_add - add_now
      in if need_to_add' = 0 then (floored', g')
         else add_by_remainder remainder values floored' need_to_add' g')"

text \<open>
  \<^verbatim>\<open>_approximate_mode(class_counts, n_draws, rng)\<close>: how many of \<open>n_draws\<close> draws fall to
  each class, in proportion to the class counts: the proportional shares rounded down, then
  the draws still missing given out by largest remainder.
\<close>

definition approximate_mode :: "nat list \<Rightarrow> nat \<Rightarrow> random_state \<Rightarrow> nat list \<times> random_state" where
  "approximate_mode class_counts n_draws g =
     (let continuous =
            map (\<lambda>c. real c / real (sum_list class_counts) * real n_draws) class_counts;
          floored = map (\<lambda>x. nat \<lfloor>x\<rfloor>) continuous;
          need_to_add = n_draws - sum_list floored
      in if need_to_add > 0 then
           (let remainder = map (\<lambda>x. x - real (nat \<lfloor>x\<rfloor>)) continuous;
                values = rev (sort (remdups remainder))
            in add_by_remainder remainder values floored need_to_add g)
         else (floored, g))"

text \<open>
  The loop over the classes: the positions of class \<open>i\<close> are shuffled, the first
  \<open>n_i[i]\<close> go to train and the next \<open>t_i[i]\<close> to test.
\<close>

fun split_classes ::
  "nat list \<Rightarrow> nat list list \<Rightarrow> nat list \<Rightarrow> nat list \<Rightarrow> nat list \<Rightarrow> nat list \<Rightarrow> random_state \<Rightarrow>
   nat list \<times> nat list \<times> random_state" where
  "split_classes (c # cs) (ix # ixs) (n # ns) (t # ts) train test g =
     (let (p, g') = permutation [0..<c] g;
          perm_indices_class_i = take_clip ix p
      in split_classes cs ixs ns ts
           (train @ take n perm_indices_class_i)
           (test @ take t (drop n perm_indices_class_i)) g')"
| "split_classes _ _ _ _ train test g = (train, test, g)"

text \<open>
  \<^verbatim>\<open>StratifiedShuffleSplit(test_size=n_test, train_size=n_train)\<close>, first split: the
  positions of the train rows and of the test rows.
\<close>

definition stratified_shuffle_split ::
  "int list \<Rightarrow> nat \<Rightarrow> nat \<Rightarrow> random_state \<Rightarrow> error + nat list \<times> nat list" where
  "stratified_shuffle_split y n_train n_test g =
     (let classes = sort (remdups y);
          n_classes = length classes;
          class_counts = map (count_list y) classes
      in if list_ex (\<lambda>c. c < 2) class_counts then
           Inl (ValueError ''The least populated class in y has only 1 member, which is too few. The minimum number of groups for any class cannot be less than 2.'')
         else if n_train < n_classes then
           Inl (ValueError ''The train_size should be greater or equal to the number of classes'')
         else if n_test < n_classes then
           Inl (ValueError ''The test_size should be greater or equal to the number of classes'')
         else
           (let class_indices = map (\<lambda>c. filter (\<lambda>j. y ! j = c) [0..<length y]) classes;
                (n_i, g1) = approximate_mode class_counts n_train g;
                class_counts_remaining = map2 (-) class_counts n_i;
                (t_i, g2) = approximate_mode class_counts_remaining n_test g1;
                (train, test, g3) = split_classes class_counts class_indices n_i t_i [] [] g2;
                (train', g4) = permutation train g3;
                (test', g5) = permutation test g4
            in Inr (train', test')))"

text \<open>
  Modelled from the spec: \<^verbatim>\<open>train_test_split\<close> is scikit-learn's and the repository holds
  only the call. The steps are those of the Stratified Splitter of the spec: group the samples
  by stage, refuse a class of fewer than two members, shuffle within each class, partition
  each class in proportion, concatenate. The counts are the ones the called function
  computes: the test rows number \<open>\<lceil>test_size * n\<rceil>\<close>, the train rows are the others, and each
  class gets its proportional share of both, rounded by largest remainder. A table (a pandas
  frame or series) is the list of its rows, each with its index label; the result is the
  train rows and the test rows of each table given.
\<close>

definition train_test_split ::
  "(nat \<times> 'a) list \<Rightarrow> (nat \<times> int) list \<Rightarrow> real \<Rightarrow> random_state \<Rightarrow> (nat \<times> int) list \<Rightarrow>
   error + ((nat \<times> 'a) list \<times> (nat \<times> 'a) list \<times> (nat \<times> int) list \<times> (nat \<times> int) list)" where
  "train_test_split X y test_size g stratify =
     (let n_samples = length X
      in if length y \<noteq> n_samples then
           Inl (ValueError ''Found input variables with inconsistent numbers of samples'')
         else if test_size \<le> 0 \<or> test_size \<ge> 1 then
           Inl (ValueError ''test_size should be in the (0, 1) range'')
         else
           (let n_test = nat \<lceil>test_size * real n_samples\<rceil>;
                n_train = n_samples - n_test
            in if n_train = 0 then
                 Inl (ValueError ''The resulting train set will be empty. Adjust any of the aforementioned parameters.'')
               else
                 (case stratified_shuffle_split (map snd stratify) n_train n_test g of
                    Inl e \<Rightarrow> Inl e
                  | Inr (train, test) \<Rightarrow>
                      Inr (map (\<lambda>i. X ! i) train, map (\<lambda>i. X ! i) test,
                           map (\<lambda>i. y ! i) train, map (\<lambda>i. y ! i) test))))"

text \<open>The eight feature columns of a row, \<^verbatim>\<open>df[feature_columns]\<close>.\<close>

record feature_row =
  x_heartRate :: real
  x_hrv :: real
  x_movement :: real
  x_bloodOxygen :: real
  x_temperature :: real
  x_breathingRate :: real
  x_timeOfNight :: real
  x_previousStage :: int

definition feature_columns :: "sample \<Rightarrow> feature_row" where
  "feature_columns s =
     \<lparr>x_heartRate = heartRate s, x_hrv = hrv s, x_movement = movement s,
      x_bloodOxygen = bloodOxygen s, x_temperature = temperature s,
      x_breathingRate = breathingRate s, x_timeOfNight = timeOfNight s,
      x_previousStage = previousStage s\<rparr>"

text \<open>
  \<^verbatim>\<open>train_df = X_train.copy(); train_df['stage'] = y_train\<close>: the stage column is added
  to the feature rows. Both tables hold the same rows of the split in the same order, so
  the labels agree position by position.
\<close>

definition with_stage :: "(nat \<times> feature_row) list \<Rightarrow> (nat \<times> int) list \<Rightarrow> (nat \<times> sample) list" where
  "with_stage X_part y_part =
     map2 (\<lambda>(l, x) (l', s).
            (l, \<lparr>heartRate = x_heartRate x, hrv = x_hrv x, movement = x_movement x,
                 bloodOxygen = x_bloodOxygen x, temperature = x_temperature x,
                 breathingRate = x_breathingRate x, timeOfNight = x_timeOfNight x,
                 previousStage = x_previousStage x, stage = s\<rparr>))
          X_part y_part"

text \<open>
  \<^verbatim>\<open>create_ml_training_data(df)\<close>. The frame built by the generator has the labels
  \<open>0, 1, 2, ...\<close>; \<open>random_state\<close> stands for the seeding of scikit-learn's generator.
  A frame built from no rows has no columns either, so selecting the feature columns
  (\<^verbatim>\<open>df[feature_columns]\<close>) raises \<^verbatim>\<open>KeyError\<close> before the splitter is reached.
\<close>

definition create_ml_training_data ::
  "(int \<Rightarrow> random_state) \<Rightarrow> sample list \<Rightarrow> error + (nat \<times> sample) list \<times> (nat \<times> sample) list" where
  "create_ml_training_data random_state df =
     (if df = [] then Inl (KeyError ''None of the feature columns are in the [columns]'')
      else
        (let X = enumerate 0 (map feature_columns df);
             y = enumerate 0 (map stage df)
         in case train_test_split X y 0.2 (random_state 42) y of
              Inl e \<Rightarrow> Inl e
            | Inr (X_train, X_test, y_train, y_test) \<Rightarrow>
                Inr (with_stage X_train y_train, with_stage X_test y_test)))"

section \<open>The metadata composer\<close>

record model_info =
  name :: string
  version :: string
  description :: string
  author :: string
  license :: string
  creation_date :: string

record training_info =
  algorithm :: string
  architecture :: string
  training_samples :: int
  validation_samples :: int
  epochs :: int
  batch_size :: int
  learning_rate :: real

record performance_metrics =
  accuracy :: real
  precision :: real
  recall :: real
  f1_score :: real

record features =
  input_features :: "string list"
  output_classes :: "string list"
  feature_descriptions :: "(string \<times> string) list"

record metadata =
  md_model_info :: model_info
  md_training_info :: training_info
  md_performance_metrics :: performance_metrics
  md_features :: features

text \<open>\<^verbatim>\<open>d[k]\<close> raises \<^verbatim>\<open>KeyError\<close> on a missing key; \<^verbatim>\<open>d.get(k, default)\<close> does not.\<close>

definition getitem :: "(string \<rightharpoonup> real) \<Rightarrow> string \<Rightarrow> error + real" where
  "getitem d k = (case d k of None \<Rightarrow> Inl (KeyError k) | Some v \<Rightarrow> Inr v)"

definition get :: "(string \<rightharpoonup> real) \<Rightarrow> string \<Rightarrow> real \<Rightarrow> real" where
  "get d k dflt = (case d k of None \<Rightarrow> dflt | Some v \<Rightarrow> v)"

text \<open>
  \<^verbatim>\<open>create_model_metadata(evaluation_metrics)\<close>. The dictionary display is evaluated in
  order, so the first missing key among accuracy, precision, recall is the one reported.
\<close>

definition create_model_metadata :: "(string \<rightharpoonup> real) \<Rightarrow> error + metadata" where
  "create_model_metadata evaluation_metrics =
     (case getitem evaluation_metrics ''accuracy'' of Inl e \<Rightarrow> Inl e | Inr acc \<Rightarrow>
      case getitem evaluation_metrics ''precision'' of Inl e \<Rightarrow> Inl e | Inr prec \<Rightarrow>
      case getitem evaluation_metrics ''recall'' of Inl e \<Rightarrow> Inl e | Inr rec \<Rightarrow>
      Inr \<lparr>md_model_info =
             \<lparr>name = ''SleepStagePredictor'', version = ''1.0'',
              description = ''Neural network for sleep stage prediction using biometric data'',
              author = ''SomnaSync Pro'', license = ''MIT'', creation_date = ''2024-01-15''\<rparr>,
           md_training_info =
             \<lparr>algorithm = ''Neural Network'', architecture = ''64-32-4 (ReLU activation)'',
              training_samples = 8000, validation_samples = 2000, epochs = 100,
              batch_size = 32, learning_rate = 0.001\<rparr>,
           md_performance_metrics =
             \<lparr>accuracy = acc, precision = prec, recall = rec,
              f1_score = get evaluation_metrics ''f1'' 0.0\<rparr>,
           md_features =
             \<lparr>input_features =
                [''heartRate'', ''hrv'', ''movement'', ''bloodOxygen'',
                 ''temperature'', ''breathingRate'', ''timeOfNight'', ''previousStage''],
              output_classes = [''awake'', ''light'', ''deep'', ''rem''],
              feature_descriptions =
                [(''heartRate'', ''Heart rate in BPM''),
                 (''hrv'', ''Heart rate variability in ms''),
                 (''movement'', ''Movement intensity (0-1)''),
                 (''bloodOxygen'', ''Blood oxygen saturation %''),
                 (''temperature'', ''Body temperature in Celsius''),
                 (''breathingRate'', ''Breathing rate per minute''),
                 (''timeOfNight'', ''Time since sleep start in hours''),
                 (''previousStage'', ''Previous sleep stage (0-3)'')]\<rparr>\<rparr>)"

section \<open>Concrete inputs\<close>

text \<open>
  A state of numpy's generator under which the first sample falls into the second phase
  (\<open>time_of_night = 2\<close>), its exponential movement draw is \<open>0.1 * 0.2\<close> and the noise
  added to it is \<open>0.1 * (-1)\<close>: one standard deviation below zero.
\<close>

definition negative_movement_rng :: rng where
  "negative_movement_rng =
     shift [1/4, 1/2, 0, 0, 1/5, 0, 0, 0, 0, 0, -1, 0, 0, 0, 1/2] (sconst 0)"

text \<open>The metrics of the spec's example: accuracy, precision and recall, no \<^verbatim>\<open>f1\<close>.\<close>

definition example_metrics :: "string \<rightharpoonup> real" where
  "example_metrics = [''accuracy'' \<mapsto> 0.91, ''precision'' \<mapsto> 0.88, ''recall'' \<mapsto> 0.85]"

text \<open>
  Data frames for the splitter: rows that differ in their stage only. One with two classes
  of five rows each, one whose second class has a single row, one of 10000 rows with 2500
  of each of the four classes.
\<close>

definition example_sample :: "int \<Rightarrow> sample" where
  "example_sample c =
     \<lparr>heartRate = 60, hrv = 40, movement = 0.1, bloodOxygen = 97, temperature = 36.6,
      breathingRate = 14, timeOfNight = 2, previousStage = c, stage = c\<rparr>"

definition two_class_frame :: "sample list" where
  "two_class_frame = map example_sample [1, 1, 1, 1, 1, 2, 2, 2, 2, 2]"

definition singleton_class_frame :: "sample list" where
  "singleton_class_frame = map example_sample [1, 1, 2]"

definition four_class_frame :: "sample list" where
  "four_class_frame =
     replicate 2500 (example_sample 0) @ replicate 2500 (example_sample 1) @
     replicate 2500 (example_sample 2) @ replicate 2500 (example_sample 3)"

section \<open>Properties of the sample generator\<close>

lemmas rng_defs = random_sample_def uniform_def normal_def exponential_def choice_def

lemma choice_in_set: "a \<noteq> [] \<Longrightarrow> fst (choice a p g) \<in> set a"
proof -
  assume "a \<noteq> []"
  then have "min (searchsorted (cumsum 0 p) (shd g)) (length a - 1) < length a"
    by (simp add: min_less_iff_disj)
  then show ?thesis
    unfolding choice_def fst_conv by (rule nth_mem)
qed

lemma phase_draws_stage:
  "b_stage (fst (phase_draws a p hr hv mv bo te br g)) = fst (choice a p g)"
  by (simp add: phase_draws_def Let_def split: prod.splits)

lemma phase_draws_state:
  "snd (phase_draws a p hr hv mv bo te br g) = sdrop 7 g"
  by (simp add: phase_draws_def Let_def rng_defs eval_nat_numeral split: prod.splits)

lemma base_values_of_stage:
  "b_stage (fst (base_values_of t g)) =
     (if t < 1 then fst (choice [0, 1] [0.3, 0.7] g)
      else if t < 3 then fst (choice [1, 2] [0.4, 0.6] g)
      else if t < 5 then fst (choice [1, 3] [0.3, 0.7] g)
      else fst (choice [0, 1, 2, 3] [0.2, 0.4, 0.2, 0.2] g))"
  unfolding base_values_of_def by (simp add: phase_draws_stage)

lemma base_values_of_state: "snd (base_values_of t g) = sdrop 7 g"
  unfolding base_values_of_def by (simp add: phase_draws_state)

lemma generate_sample_fields:
  "timeOfNight (fst (generate_sample g)) = 8 * shd g \<and>
   stage (fst (generate_sample g)) = b_stage (fst (base_values_of (8 * shd g) (stl g))) \<and>
   previousStage (fst (generate_sample g)) =
     (if shd (sdrop 6 (snd (base_values_of (8 * shd g) (stl g)))) > 0.3
      then (b_stage (fst (base_values_of (8 * shd g) (stl g))) - 1) mod 4
      else b_stage (fst (base_values_of (8 * shd g) (stl g))))"
  unfolding generate_sample_def
  by (simp add: Let_def uniform_def normal_def random_sample_def eval_nat_numeral
      split: prod.splits)

lemma generate_sample_timeOfNight: "timeOfNight (fst (generate_sample g)) = 8 * shd g"
  using generate_sample_fields [of g] by simp

lemma generate_sample_stage:
  "stage (fst (generate_sample g)) =
     (if 8 * shd g < 1 then fst (choice [0, 1] [0.3, 0.7] (stl g))
      else if 8 * shd g < 3 then fst (choice [1, 2] [0.4, 0.6] (stl g))
      else if 8 * shd g < 5 then fst (choice [1, 3] [0.3, 0.7] (stl g))
      else fst (choice [0, 1, 2, 3] [0.2, 0.4, 0.2, 0.2] (stl g)))"
  using generate_sample_fields [of g] base_values_of_stage [of "8 * shd g" "stl g"] by simp

lemma generate_sample_previousStage:
  "previousStage (fst (generate_sample g)) =
     (if g !! 14 > 0.3 then (stage (fst (generate_sample g)) - 1) mod 4
      else stage (fst (generate_sample g)))"
proof -
  have "sdrop 6 (sdrop 7 (stl g)) = sdrop 14 g"
    by (simp add: eval_nat_numeral)
  then have "shd (sdrop 6 (snd (base_values_of (8 * shd g) (stl g)))) = g !! 14"
    unfolding base_values_of_state by (simp only: sdrop_simps(1))
  then show ?thesis using generate_sample_fields [of g] by simp
qed

lemma clamped_fields_within_bounds:
  fixes g :: rng
  defines "s \<equiv> fst (generate_sample g)"
  shows "40 \<le> heartRate s \<and> heartRate s \<le> 100 \<and> 10 \<le> hrv s \<and> hrv s \<le> 80 \<and>
         movement s \<le> 1 \<and> 90 \<le> bloodOxygen s \<and> bloodOxygen s \<le> 100 \<and>
         35.5 \<le> temperature s \<and> temperature s \<le> 37.5 \<and>
         8 \<le> breathingRate s \<and> breathingRate s \<le> 25"
  unfolding s_def generate_sample_def
  by (simp add: Let_def split: prod.splits) (simp add: max_def min_def)

lemma stage_by_phase:
  fixes g :: rng
  defines "s \<equiv> fst (generate_sample g)"
  shows "(0 \<le> timeOfNight s \<and> timeOfNight s < 1 \<longrightarrow> stage s \<in> {0, 1}) \<and>
         (1 \<le> timeOfNight s \<and> timeOfNight s < 3 \<longrightarrow> stage s \<in> {1, 2}) \<and>
         (3 \<le> timeOfNight s \<and> timeOfNight s < 5 \<longrightarrow> stage s \<in> {1, 3}) \<and>
         (5 \<le> timeOfNight s \<and> timeOfNight s < 8 \<longrightarrow> stage s \<in> {0, 1, 2, 3})"
proof -
  have c1: "fst (choice [0, 1] p g') \<in> {0, 1}" for p g'
    using choice_in_set [of "[0, 1]" p g'] by simp
  have c2: "fst (choice [1, 2] p g') \<in> {1, 2}" for p g'
    using choice_in_set [of "[1, 2]" p g'] by simp
  have c3: "fst (choice [1, 3] p g') \<in> {1, 3}" for p g'
    using choice_in_set [of "[1, 3]" p g'] by simp
  have c4: "fst (choice [0, 1, 2, 3] p g') \<in> {0, 1, 2, 3}" for p g'
    using choice_in_set [of "[0, 1, 2, 3]" p g'] by simp
  show ?thesis
    unfolding s_def generate_sample_timeOfNight generate_sample_stage
    using c1 [of "[0.3, 0.7]" "stl g"] c2 [of "[0.4, 0.6]" "stl g"]
      c3 [of "[0.3, 0.7]" "stl g"] c4 [of "[0.2, 0.4, 0.2, 0.2]" "stl g"]
    by simp
qed

lemma stage_in_domain: "stage (fst (generate_sample g)) \<in> {0, 1, 2, 3}"
proof -
  have c1: "fst (choice [0, 1] p g') \<in> {0, 1}" for p g'
    using choice_in_set [of "[0, 1]" p g'] by simp
  have c2: "fst (choice [1, 2] p g') \<in> {1, 2}" for p g'
    using choice_in_set [of "[1, 2]" p g'] by simp
  have c3: "fst (choice [1, 3] p g') \<in> {1, 3}" for p g'
    using choice_in_set [of "[1, 3]" p g'] by simp
  have c4: "fst (choice [0, 1, 2, 3] p g') \<in> {0, 1, 2, 3}" for p g'
    using choice_in_set [of "[0, 1, 2, 3]" p g'] by simp
  show ?thesis
    unfolding generate_sample_stage
    using c1 [of "[0.3, 0.7]" "stl g"] c2 [of "[0.4, 0.6]" "stl g"]
      c3 [of "[0.3, 0.7]" "stl g"] c4 [of "[0.2, 0.4, 0.2, 0.2]" "stl g"]
    by auto
qed

lemma sample_loop_Suc:
  "sample_loop (Suc k) g data =
     sample_loop k (snd (generate_sample g)) (data @ [fst (generate_sample g)])"
  by (simp add: split_def Let_def)

lemma sample_loop_set:
  "set (fst (sample_loop n g data)) \<subseteq> set data \<union> range (\<lambda>g'. fst (generate_sample g'))"
proof (induction n arbitrary: g data)
  case 0
  show ?case by simp
next
  case (Suc n)
  have "set (fst (sample_loop n (snd (generate_sample g)) (data @ [fst (generate_sample g)])))
          \<subseteq> set (data @ [fst (generate_sample g)]) \<union> range (\<lambda>g'. fst (generate_sample g'))"
    by (rule Suc.IH)
  then show ?case unfolding sample_loop_Suc by auto
qed

lemma generated_sample_cases:
  assumes "s \<in> set (fst (generate_synthetic_sleep_data np_seed n g))"
  obtains g' where "s = fst (generate_sample g')"
  using assms sample_loop_set [of n "np_seed 42" "[]"]
  unfolding generate_synthetic_sleep_data_def by auto

lemma take_sample_loop_data: "take (length data) (fst (sample_loop k g data)) = data"
proof (induction k arbitrary: g data)
  case 0
  show ?case by simp
next
  case (Suc k)
  let ?s = "fst (generate_sample g)" and ?g = "snd (generate_sample g)"
  have "take (length (data @ [?s])) (fst (sample_loop k ?g (data @ [?s]))) = data @ [?s]"
    by (rule Suc.IH)
  then have "take (length data) (take (Suc (length data)) (fst (sample_loop k ?g (data @ [?s]))))
      = take (length data) (data @ [?s])"
    by simp
  then show ?case unfolding sample_loop_Suc by (simp add: min_def)
qed

lemma length_sample_loop: "length (fst (sample_loop n g data)) = length data + n"
  by (induction n arbitrary: g data) (simp_all add: sample_loop_Suc del: sample_loop.simps(2))

lemma take_sample_loop:
  "take (length data + n) (fst (sample_loop (n + k) g data)) = fst (sample_loop n g data)"
proof (induction n arbitrary: g data)
  case 0
  show ?case using take_sample_loop_data [of data k g] by simp
next
  case (Suc n)
  let ?s = "fst (generate_sample g)" and ?g = "snd (generate_sample g)"
  have "take (length (data @ [?s]) + n) (fst (sample_loop (n + k) ?g (data @ [?s])))
      = fst (sample_loop n ?g (data @ [?s]))"
    by (rule Suc.IH)
  then show ?case unfolding add_Suc sample_loop_Suc by simp
qed

lemma sample_loop_nth:
  assumes "i < n" and "n \<le> m"
  shows "fst (sample_loop m g []) ! i = fst (sample_loop n g []) ! i"
proof -
  obtain k where m: "m = n + k" using assms(2) by (auto simp: le_iff_add)
  have "fst (sample_loop n g []) = take n (fst (sample_loop (n + k) g []))"
    using take_sample_loop [of "[]" n k g] by simp
  then show ?thesis using assms(1) m by simp
qed

lemma one_sample:
  "fst (generate_synthetic_sleep_data np_seed (Suc 0) g) = [fst (generate_sample (np_seed 42))]"
  by (simp add: generate_synthetic_sleep_data_def split_def Let_def)

text \<open>One iteration consumes fifteen variates; sample \<open>i\<close> is drawn from the seeded stream at offset \<open>15 * i\<close>.\<close>

lemma generate_sample_state: "snd (generate_sample g) = sdrop 15 g"
proof -
  have "sdrop 7 (sdrop 7 (stl g)) = sdrop 15 g"
    by (simp add: eval_nat_numeral)
  then show ?thesis
    unfolding generate_sample_def
    using base_values_of_state [of "8 * shd g" "stl g"]
    by (auto simp add: Let_def uniform_def normal_def random_sample_def eval_nat_numeral
        split: prod.splits)
qed

lemma sample_loop_samples:
  "fst (sample_loop n g data)
     = data @ map (\<lambda>i. fst (generate_sample (sdrop (15 * i) g))) [0..<n]"
proof (induction n arbitrary: g data)
  case 0
  show ?case by simp
next
  case (Suc n)
  have "fst (sample_loop (Suc n) g data)
      = fst (sample_loop n (sdrop 15 g) (data @ [fst (generate_sample g)]))"
    unfolding sample_loop_Suc generate_sample_state by (rule refl)
  also have "\<dots> = (data @ [fst (generate_sample g)])
      @ map (\<lambda>i. fst (generate_sample (sdrop (15 * i) (sdrop 15 g)))) [0..<n]"
    by (rule Suc.IH)
  also have "map (\<lambda>i. fst (generate_sample (sdrop (15 * i) (sdrop 15 g)))) [0..<n]
      = map (\<lambda>i. fst (generate_sample (sdrop (15 * Suc i) g))) [0..<n]"
    by (simp add: sdrop_add add.commute)
  also have "(data @ [fst (generate_sample g)])
      @ map (\<lambda>i. fst (generate_sample (sdrop (15 * Suc i) g))) [0..<n]
      = data @ map (\<lambda>i. fst (generate_sample (sdrop (15 * i) g))) [0..<Suc n]"
    unfolding map_upt_Suc by simp
  finally show ?case .
qed

lemma generated_sample_nth:
  assumes "i < n"
  shows "fst (generate_synthetic_sleep_data np_seed n g) ! i
           = fst (generate_sample (sdrop (15 * i) (np_seed 42)))"
  unfolding generate_synthetic_sleep_data_def sample_loop_samples using assms by simp

text \<open>
  \<^verbatim>\<open>np.random.choice(a, p=p)\<close> inverts the cumulative distribution of \<open>p\<close> at one uniform
  variate: the first class whose cumulative probability exceeds it.
\<close>

lemma choice_two:
  "fst (choice [a, b] [p, q] g) = (if shd g < p then a else b)"
  by (simp add: choice_def)

lemma choice_four:
  "fst (choice [a, b, c, d] [p, q, r, s] g)
     = (if shd g < p then a else if shd g < p + q then b else if shd g < p + q + r then c else d)"
  by (simp add: choice_def)

lemma generate_sample_stage_draw:
  "stage (fst (generate_sample g)) =
     (if 8 * shd g < 1 then (if g !! 1 < 0.3 then 0 else 1)
      else if 8 * shd g < 3 then (if g !! 1 < 0.4 then 1 else 2)
      else if 8 * shd g < 5 then (if g !! 1 < 0.3 then 1 else 3)
      else (if g !! 1 < 0.2 then 0 else if g !! 1 < 0.6 then 1
            else if g !! 1 < 0.8 then 2 else 3))"
  unfolding generate_sample_stage choice_two choice_four by simp

text \<open>
  Claim C1 (every continuous field lies within its clamp bounds; movement in \<open>[0,1]\<close>).
  The source clamps movement from above only, \<^verbatim>\<open>min(1.0, movement + noise)\<close>, where the
  five other fields are clamped on both sides. Under the generator state
  \<open>negative_movement_rng\<close> the one generated sample has movement \<open>-0.08\<close>, below the
  documented lower bound 0.
\<close>

theorem movement_below_zero:
  "map movement (fst (generate_synthetic_sleep_data (\<lambda>seed. negative_movement_rng) 1 (sconst 0)))
     = [- 2 / 25]"
  by (simp add: generate_synthetic_sleep_data_def generate_sample_def base_values_of_def
      phase_draws_def rng_defs negative_movement_rng_def Let_def)

text \<open>
  Claim C3 (generation is deterministic for a fixed seed). The function reseeds the
  generator before it draws, so the data do not depend on the state the generator was in:
  two calls from any two states, and in particular a second run right after the first,
  return the same samples. The sample at index \<open>i\<close> is the same whatever the number of
  samples asked for: it depends on the index and the seed only.
\<close>

theorem generation_deterministic:
  "fst (generate_synthetic_sleep_data np_seed n g) = fst (generate_synthetic_sleep_data np_seed n g') \<and>
   fst (generate_synthetic_sleep_data np_seed n (snd (generate_synthetic_sleep_data np_seed n g)))
     = fst (generate_synthetic_sleep_data np_seed n g) \<and>
   (i < n \<and> n \<le> m \<longrightarrow>
      fst (generate_synthetic_sleep_data np_seed m g') ! i
        = fst (generate_synthetic_sleep_data np_seed n g) ! i)"
  using sample_loop_nth [of i n m "np_seed 42"]
  by (simp add: generate_synthetic_sleep_data_def)

theorem generation_deterministic_witness:
  "(0::nat) < 1 \<and> (1::nat) \<le> 2 \<and>
   fst (generate_synthetic_sleep_data (\<lambda>seed. sconst (1/2)) 2 (sconst 0)) ! 0
     = fst (generate_synthetic_sleep_data (\<lambda>seed. sconst (1/2)) 1 (sconst 1)) ! 0"
  using generation_deterministic [of "\<lambda>seed. sconst (1/2)" 1 "sconst 1" "sconst 0" 0 2]
  by simp

text \<open>
  Claim C4 (the stage is drawn from the categorical distribution of the phase bucket
  selected solely by \<open>timeOfNight\<close>, and so restricted to the bucket's classes). The data
  hold \<open>n\<close> samples, and for every index \<open>i < n\<close> the sample at \<open>i\<close> has for \<open>timeOfNight\<close>
  the uniform draw \<open>t\<close> on \<open>[0,8)\<close> that opens its iteration, and for stage the draw of
  \<^verbatim>\<open>np.random.choice\<close> at the next uniform variate \<open>u\<close>, with the classes and the
  probabilities of the bucket that \<open>t\<close> alone selects:
  \<open>t < 1\<close>: awake (0) with probability 0.3 (\<open>u < 0.3\<close>), light (1) with 0.7;
  \<open>1 \<le> t < 3\<close>: light (1) with 0.4 (\<open>u < 0.4\<close>), deep (2) with 0.6;
  \<open>3 \<le> t < 5\<close>: light (1) with 0.3 (\<open>u < 0.3\<close>), rem (3) with 0.7;
  \<open>5 \<le> t\<close>: awake with 0.2 (\<open>u < 0.2\<close>), light with 0.4 (\<open>0.2 \<le> u < 0.6\<close>), deep with 0.2
  (\<open>0.6 \<le> u < 0.8\<close>), rem with 0.2 (\<open>0.8 \<le> u\<close>).
  Hence \<open>timeOfNight\<close> in \<open>[0,1)\<close> gives a stage in \<open>{0, 1}\<close> (awake, light); \<open>[1,3)\<close> gives
  \<open>{1, 2}\<close> (light, deep); \<open>[3,5)\<close> gives \<open>{1, 3}\<close> (light, rem); \<open>[5,8)\<close> allows all four
  classes.
\<close>

theorem stage_drawn_from_phase:
  assumes "i < n"
  shows "length (fst (generate_synthetic_sleep_data np_seed n g)) = n \<and>
         (let s = fst (generate_synthetic_sleep_data np_seed n g) ! i;
              t = 8 * (np_seed 42 !! (15 * i));
              u = np_seed 42 !! (15 * i + 1)
          in timeOfNight s = t \<and>
             stage s =
               (if t < 1 then (if u < 0.3 then 0 else 1)
                else if t < 3 then (if u < 0.4 then 1 else 2)
                else if t < 5 then (if u < 0.3 then 1 else 3)
                else (if u < 0.2 then 0 else if u < 0.6 then 1 else if u < 0.8 then 2 else 3)) \<and>
             (0 \<le> timeOfNight s \<and> timeOfNight s < 1 \<longrightarrow> stage s \<in> {0, 1}) \<and>
             (1 \<le> timeOfNight s \<and> timeOfNight s < 3 \<longrightarrow> stage s \<in> {1, 2}) \<and>
             (3 \<le> timeOfNight s \<and> timeOfNight s < 5 \<longrightarrow> stage s \<in> {1, 3}) \<and>
             (5 \<le> timeOfNight s \<and> timeOfNight s < 8 \<longrightarrow> stage s \<in> {0, 1, 2, 3}))"
proof -
  define g' where "g' = sdrop (15 * i) (np_seed 42)"
  have l: "length (fst (generate_synthetic_sleep_data np_seed n g)) = n"
    by (simp add: generate_synthetic_sleep_data_def length_sample_loop)
  have s: "fst (generate_synthetic_sleep_data np_seed n g) ! i = fst (generate_sample g')"
    unfolding g'_def using assms by (rule generated_sample_nth)
  have t: "np_seed 42 !! (15 * i) = shd g'" unfolding g'_def by simp
  have u: "np_seed 42 !! (15 * i + 1) = g' !! 1"
    unfolding g'_def by (simp add: sdrop_snth)
  show ?thesis
    unfolding Let_def s t u
    using generate_sample_timeOfNight [of g'] generate_sample_stage_draw [of g']
      stage_by_phase [of g'] l
    by simp
qed

theorem stage_drawn_from_phase_witness:
  "(0::nat) < Suc 0 \<and>
   timeOfNight (fst (generate_synthetic_sleep_data (\<lambda>seed. sconst (1/16)) (Suc 0) (sconst 0)) ! 0) = 1/2 \<and>
   stage (fst (generate_synthetic_sleep_data (\<lambda>seed. sconst (1/16)) (Suc 0) (sconst 0)) ! 0) = 0 \<and>
   timeOfNight (fst (generate_synthetic_sleep_data (\<lambda>seed. sconst (1/4)) (Suc 0) (sconst 0)) ! 0) = 2 \<and>
   stage (fst (generate_synthetic_sleep_data (\<lambda>seed. sconst (1/4)) (Suc 0) (sconst 0)) ! 0) = 1 \<and>
   timeOfNight (fst (generate_synthetic_sleep_data (\<lambda>seed. sconst (1/2)) (Suc 0) (sconst 0)) ! 0) = 4 \<and>
   stage (fst (generate_synthetic_sleep_data (\<lambda>seed. sconst (1/2)) (Suc 0) (sconst 0)) ! 0) = 3 \<and>
   timeOfNight (fst (generate_synthetic_sleep_data (\<lambda>seed. sconst (3/4)) (Suc 0) (sconst 0)) ! 0) = 6 \<and>
   stage (fst (generate_synthetic_sleep_data (\<lambda>seed. sconst (3/4)) (Suc 0) (sconst 0)) ! 0) = 2"
proof -
  have i: "(0::nat) < Suc 0" by simp
  show ?thesis
    using stage_drawn_from_phase [OF i, of "\<lambda>seed. sconst (1/16)" "sconst 0"]
      stage_drawn_from_phase [OF i, of "\<lambda>seed. sconst (1/4)" "sconst 0"]
      stage_drawn_from_phase [OF i, of "\<lambda>seed. sconst (1/2)" "sconst 0"]
      stage_drawn_from_phase [OF i, of "\<lambda>seed. sconst (3/4)" "sconst 0"]
    by (simp add: Let_def)
qed

text \<open>
  Claim C5 (previousStage is \<open>(stage - 1) mod 4\<close> with probability 0.7 and stage
  otherwise). The fifteenth variate of an iteration is the uniform draw \<open>r\<close> of
  \<^verbatim>\<open>np.random.random()\<close>; previousStage is \<open>(stage - 1) mod 4\<close> exactly when \<open>r > 0.3\<close>,
  an event of probability 0.7 for a uniform draw on \<open>[0,1)\<close>, and stage otherwise. So for
  every generated sample previousStage lies in \<open>{(stage - 1) mod 4, stage}\<close> and in the
  categorical domain \<open>{0, 1, 2, 3}\<close>.
\<close>

theorem previousStage_transition:
  "(let s = fst (generate_sample g') in
      previousStage s = (if g' !! 14 > 0.3 then (stage s - 1) mod 4 else stage s)) \<and>
   (\<forall>s \<in> set (fst (generate_synthetic_sleep_data np_seed n g)).
      previousStage s \<in> {(stage s - 1) mod 4, stage s} \<and> previousStage s \<in> {0, 1, 2, 3})"
proof -
  have "previousStage s \<in> {(stage s - 1) mod 4, stage s} \<and> previousStage s \<in> {0, 1, 2, 3}"
    if mem: "s \<in> set (fst (generate_synthetic_sleep_data np_seed n g))" for s
  proof -
    obtain g1 where s: "s = fst (generate_sample g1)"
      using mem by (rule generated_sample_cases)
    have "stage s \<in> {0, 1, 2, 3}" unfolding s by (rule stage_in_domain)
    moreover have "previousStage s = (stage s - 1) mod 4 \<or> previousStage s = stage s"
      unfolding s using generate_sample_previousStage [of g1] by (simp split: if_splits)
    ultimately show ?thesis by auto
  qed
  then show ?thesis
    using generate_sample_previousStage [of g'] by (simp add: Let_def)
qed

theorem previousStage_transition_witness:
  "(let s = fst (generate_sample (sconst (1/2))) in
      s \<in> set (fst (generate_synthetic_sleep_data (\<lambda>seed. sconst (1/2)) (Suc 0) (sconst 0))) \<and>
      previousStage s \<in> {(stage s - 1) mod 4, stage s} \<and> previousStage s \<in> {0, 1, 2, 3})"
proof -
  have m: "fst (generate_sample (sconst (1/2)))
      \<in> set (fst (generate_synthetic_sleep_data (\<lambda>seed. sconst (1/2)) (Suc 0) (sconst 0)))"
    by (simp add: one_sample)
  show ?thesis
    unfolding Let_def
    using previousStage_transition [of "sconst 0" "\<lambda>seed. sconst (1/2)" "Suc 0" "sconst 0"] m
    by blast
qed

section \<open>Properties of the stratified splitter\<close>

subsection \<open>Shuffles are permutations\<close>

lemma shuffle_mset: "i < length xs \<Longrightarrow> mset (fst (shuffle i xs g)) = mset xs"
proof (induction i arbitrary: xs g)
  case 0
  show ?case by simp
next
  case (Suc i)
  let ?j = "shd g mod Suc (Suc i)"
  let ?xs = "xs[Suc i := xs ! ?j, ?j := xs ! Suc i]"
  have j: "?j < length xs" using Suc.prems by (meson less_Suc_eq_le less_le_trans mod_less_divisor zero_less_Suc not_less_eq)
  have "mset (fst (shuffle i ?xs (stl g))) = mset ?xs"
    using Suc.prems by (intro Suc.IH) simp
  also have "mset ?xs = mset xs"
    using Suc.prems j by (simp add: mset_swap)
  finally show ?case by (simp add: Let_def)
qed

lemma permutation_mset [simp]: "mset (fst (permutation xs g)) = mset xs"
proof (cases xs)
  case Nil
  then show ?thesis by (simp add: permutation_def)
next
  case (Cons x xs')
  then show ?thesis unfolding permutation_def by (intro shuffle_mset) simp
qed

lemma permutation_length [simp]: "length (fst (permutation xs g)) = length xs"
  using permutation_mset [of xs g] by (metis size_mset)

lemma permutation_set [simp]: "set (fst (permutation xs g)) = set xs"
  using permutation_mset [of xs g] by (metis set_mset_mset)

lemma permutation_distinct [simp]: "distinct (fst (permutation xs g)) = distinct xs"
  using permutation_mset [of xs g] by (metis mset_eq_imp_distinct_iff)

lemma choice_without_replacement_props:
  assumes "distinct a" and "n \<le> length a"
  shows "distinct (fst (choice_without_replacement a n g))"
    and "set (fst (choice_without_replacement a n g)) \<subseteq> set a"
    and "length (fst (choice_without_replacement a n g)) = n"
proof -
  have eq: "fst (choice_without_replacement a n g) = take n (fst (permutation a g))"
    by (simp add: choice_without_replacement_def split_def Let_def)
  show "distinct (fst (choice_without_replacement a n g))"
    unfolding eq using assms(1) by simp
  show "set (fst (choice_without_replacement a n g)) \<subseteq> set a"
    unfolding eq using set_take_subset [of n "fst (permutation a g)"] by simp
  show "length (fst (choice_without_replacement a n g)) = n"
    unfolding eq using assms(2) by simp
qed

lemma take_clip_permutation:
  "mset (take_clip a (fst (permutation [0..<length a] g))) = mset a"
proof -
  let ?p = "fst (permutation [0..<length a] g)"
  have "\<forall>k \<in> set ?p. k < length a" by simp
  then have "take_clip a ?p = map (\<lambda>k. a ! k) ?p"
    unfolding take_clip_def by (intro map_cong) (auto simp: min_def)
  then have "mset (take_clip a ?p) = image_mset (\<lambda>k. a ! k) (mset ?p)" by simp
  also have "\<dots> = mset (map (\<lambda>k. a ! k) [0..<length a])"
    by (simp del: mset_upt)
  also have "\<dots> = mset a" by (simp only: map_nth)
  finally show ?thesis .
qed

subsection \<open>Largest remainders\<close>

lemma length_filter_disj:
  "(\<And>x. x \<in> set xs \<Longrightarrow> \<not> (P x \<and> Q x)) \<Longrightarrow>
   length (filter (\<lambda>x. P x \<or> Q x) xs) = length (filter P xs) + length (filter Q xs)"
  by (induction xs) auto

lemma sum_list_nth_upt: "sum_list (map (\<lambda>i. fl ! i) [0..<length fl]) = sum_list fl"
  by (simp only: map_nth)

lemma sum_list_indicator:
  "sum_list (map (\<lambda>x. if P x then 1 else 0) xs) = length (filter P xs)"
  by (induction xs) auto

lemma sum_list_incr:
  fixes fl :: "nat list"
  assumes "distinct chosen" and "set chosen \<subseteq> {0..<length fl}"
  shows "sum_list (map (\<lambda>i. if i \<in> set chosen then fl ! i + 1 else fl ! i) [0..<length fl])
           = sum_list fl + length chosen"
proof -
  have "sum_list (map (\<lambda>i. if i \<in> set chosen then fl ! i + 1 else fl ! i) [0..<length fl])
      = sum_list (map (\<lambda>i. fl ! i + (if i \<in> set chosen then 1 else 0)) [0..<length fl])"
    by (intro arg_cong [where f = sum_list] map_cong) auto
  also have "\<dots> = sum_list (map (\<lambda>i. fl ! i) [0..<length fl])
      + sum_list (map (\<lambda>i. if i \<in> set chosen then 1 else 0) [0..<length fl])"
    by (rule sum_list_addf)
  also have "sum_list (map (\<lambda>i. if i \<in> set chosen then 1 else 0) [0..<length fl])
      = length (filter (\<lambda>i. i \<in> set chosen) [0..<length fl])"
    by (rule sum_list_indicator)
  also have "length (filter (\<lambda>i. i \<in> set chosen) [0..<length fl]) = card (set chosen)"
  proof -
    have "set (filter (\<lambda>i. i \<in> set chosen) [0..<length fl]) = set chosen"
      using assms(2) by auto
    moreover have "distinct (filter (\<lambda>i. i \<in> set chosen) [0..<length fl])" by simp
    ultimately show ?thesis by (metis distinct_card)
  qed
  also have "card (set chosen) = length chosen"
    using assms(1) by (rule distinct_card)
  finally show ?thesis by (simp only: sum_list_nth_upt)
qed

lemma add_by_remainder_unfold:
  "add_by_remainder remainder (v # vs) floored need g =
     (let inds = filter (\<lambda>i. remainder ! i = v) [0..<length remainder];
          cw = choice_without_replacement inds (min (length inds) need) g;
          fl = map (\<lambda>i. if i \<in> set (fst cw) then floored ! i + 1 else floored ! i)
                 [0..<length floored]
      in if need - min (length inds) need = 0 then (fl, snd cw)
         else add_by_remainder remainder vs fl (need - min (length inds) need) (snd cw))"
  by (simp add: Let_def split_def)

lemma add_by_remainder_props:
  assumes "length floored = length remainder"
    and "distinct values" and "sorted (rev values)" and "0 < need"
    and "need \<le> length (filter (\<lambda>i. remainder ! i \<in> set values \<and> 0 < remainder ! i)
                        [0..<length remainder])"
  shows "length (fst (add_by_remainder remainder values floored need g)) = length remainder \<and>
         sum_list (fst (add_by_remainder remainder values floored need g)) = sum_list floored + need \<and>
         (\<forall>i < length remainder.
            fst (add_by_remainder remainder values floored need g) ! i = floored ! i \<or>
            (fst (add_by_remainder remainder values floored need g) ! i = floored ! i + 1 \<and>
             0 < remainder ! i \<and> remainder ! i \<in> set values))"
  using assms
proof (induction "values" arbitrary: floored need g)
  case Nil
  then show ?case by simp
next
  case (Cons v vs)
  define k where "k = length remainder"
  define inds where "inds = filter (\<lambda>i. remainder ! i = v) [0..<length remainder]"
  define add_now where "add_now = min (length inds) need"
  define cw where "cw = choice_without_replacement inds add_now g"
  define chosen where "chosen = fst cw"
  define fl where "fl = map (\<lambda>i. if i \<in> set chosen then floored ! i + 1 else floored ! i)
                 [0..<length floored]"
  define need' where "need' = need - add_now"
  have len: "length floored = k" using Cons.prems(1) k_def by simp
  have v_notin: "v \<notin> set vs" and dvs: "distinct vs" using Cons.prems(2) by auto
  have svs: "sorted (rev vs)" and v_max: "\<forall>w \<in> set vs. w \<le> v"
    using Cons.prems(3) by (auto simp: sorted_append)
  have v_pos: "0 < v"
  proof (rule ccontr)
    assume "\<not> 0 < v"
    then have "\<forall>w \<in> set (v # vs). \<not> 0 < w" using v_max by auto
    then have "filter (\<lambda>i. remainder ! i \<in> set (v # vs) \<and> 0 < remainder ! i)
        [0..<length remainder] = []"
      unfolding filter_empty_conv by blast
    then show False using Cons.prems(4,5) by simp
  qed
  have split_count:
    "length (filter (\<lambda>i. remainder ! i \<in> set (v # vs) \<and> 0 < remainder ! i) [0..<length remainder])
       = length inds
         + length (filter (\<lambda>i. remainder ! i \<in> set vs \<and> 0 < remainder ! i) [0..<length remainder])"
  proof -
    have "filter (\<lambda>i. remainder ! i \<in> set (v # vs) \<and> 0 < remainder ! i) [0..<length remainder]
        = filter (\<lambda>i. remainder ! i = v \<or> (remainder ! i \<in> set vs \<and> 0 < remainder ! i))
            [0..<length remainder]"
      using v_pos by (intro filter_cong) auto
    moreover have "length (filter (\<lambda>i. remainder ! i = v \<or> (remainder ! i \<in> set vs \<and> 0 < remainder ! i))
            [0..<length remainder])
        = length (filter (\<lambda>i. remainder ! i = v) [0..<length remainder])
          + length (filter (\<lambda>i. remainder ! i \<in> set vs \<and> 0 < remainder ! i) [0..<length remainder])"
      using v_notin by (intro length_filter_disj) auto
    ultimately show ?thesis unfolding inds_def by simp
  qed
  have dinds: "distinct inds" unfolding inds_def by simp
  have "add_now \<le> length inds" unfolding add_now_def by simp
  then have d: "distinct chosen" and sub: "set chosen \<subseteq> set inds" and lc: "length chosen = add_now"
    unfolding chosen_def cw_def using choice_without_replacement_props [OF dinds, of add_now g]
    by blast+
  have sub': "set chosen \<subseteq> {0..<length floored}" using sub len unfolding inds_def k_def by auto
  have sum_fl: "sum_list fl = sum_list floored + add_now"
    unfolding fl_def using sum_list_incr [OF d sub'] lc by simp
  have len_fl: "length fl = length remainder" unfolding fl_def using len k_def by simp
  have nth_fl: "fl ! i = floored ! i \<or> (fl ! i = floored ! i + 1 \<and> remainder ! i = v)"
    if "i < length remainder" for i
  proof (cases "i \<in> set chosen")
    case True
    then have "remainder ! i = v" using sub unfolding inds_def by auto
    moreover have "fl ! i = floored ! i + 1"
      unfolding fl_def using that len k_def True by simp
    ultimately show ?thesis by blast
  next
    case False
    then have "fl ! i = floored ! i" unfolding fl_def using that len k_def by simp
    then show ?thesis by blast
  qed
  have unfold: "add_by_remainder remainder (v # vs) floored need g =
      (if need' = 0 then (fl, snd cw) else add_by_remainder remainder vs fl need' (snd cw))"
    unfolding add_by_remainder_unfold Let_def need'_def fl_def chosen_def cw_def add_now_def inds_def
    by (rule refl)
  show ?case
  proof (cases "need' = 0")
    case True
    then have an: "add_now = need" unfolding need'_def add_now_def by linarith
    have R: "fst (add_by_remainder remainder (v # vs) floored need g) = fl"
      unfolding unfold using True by simp
    have "fl ! i = floored ! i \<or>
        (fl ! i = floored ! i + 1 \<and> 0 < remainder ! i \<and> remainder ! i \<in> set (v # vs))"
      if "i < length remainder" for i
      using nth_fl [OF that] v_pos by auto
    then show ?thesis unfolding R using len_fl sum_fl an by blast
  next
    case False
    then have an: "add_now = length inds" and lt: "length inds < need"
      unfolding need'_def add_now_def by linarith+
    have need_le: "need' \<le> length (filter (\<lambda>i. remainder ! i \<in> set vs \<and> 0 < remainder ! i)
        [0..<length remainder])"
      using Cons.prems(5) split_count an unfolding need'_def by linarith
    have pos: "0 < need'" using False by simp
    note IH = Cons.IH [OF len_fl dvs svs pos need_le, of "snd cw"]
    define R where "R = fst (add_by_remainder remainder vs fl need' (snd cw))"
    have Req: "fst (add_by_remainder remainder (v # vs) floored need g) = R"
      unfolding unfold R_def using False by simp
    have 1: "length R = length remainder" using IH unfolding R_def by blast
    have "sum_list R = sum_list fl + need'" using IH unfolding R_def by blast
    then have 2: "sum_list R = sum_list floored + need"
      using sum_fl lt an unfolding need'_def by linarith
    have 3: "R ! i = floored ! i \<or>
        (R ! i = floored ! i + 1 \<and> 0 < remainder ! i \<and> remainder ! i \<in> set (v # vs))"
      if i: "i < length remainder" for i
    proof -
      from IH i have r: "R ! i = fl ! i \<or>
          (R ! i = fl ! i + 1 \<and> 0 < remainder ! i \<and> remainder ! i \<in> set vs)"
        unfolding R_def by blast
      show ?thesis
      proof (cases "remainder ! i = v")
        case True
        then have "remainder ! i \<notin> set vs" using v_notin by simp
        then have "R ! i = fl ! i" using r by blast
        then show ?thesis using nth_fl [OF i] True v_pos by auto
      next
        case False
        then have "fl ! i = floored ! i" using nth_fl [OF i] by blast
        then show ?thesis using r by auto
      qed
    qed
    show ?thesis unfolding Req using 1 2 3 by blast
  qed
qed

lemma sum_list_shares:
  "sum_list (map (\<lambda>c. real c / t * d) cs) = real (sum_list cs) / t * d"
  by (induction cs) (simp_all add: add_divide_distrib distrib_right)

lemma share_bounds:
  assumes "0 < t" and "d \<le> t" and "c \<le> t"
  shows "0 \<le> real c / real t * real d" and "real c / real t * real d \<le> real c"
proof -
  show "0 \<le> real c / real t * real d" by simp
  have "real c / real t * real d = real c * (real d / real t)" by simp
  also have "\<dots> \<le> real c * 1"
    using assms by (intro mult_left_mono) simp_all
  finally show "real c / real t * real d \<le> real c" by simp
qed

lemma sum_list_floor_remainder:
  assumes "\<forall>x \<in> set xs. (0::real) \<le> x"
  shows "real (sum_list (map (\<lambda>x. nat \<lfloor>x\<rfloor>) xs)) + sum_list (map (\<lambda>x. x - real (nat \<lfloor>x\<rfloor>)) xs)
           = sum_list xs"
  using assms by (induction xs) simp_all

lemma remainder_range:
  assumes "(0::real) \<le> x"
  shows "0 \<le> x - real (nat \<lfloor>x\<rfloor>)" and "x - real (nat \<lfloor>x\<rfloor>) < 1"
  using assms by (simp_all add: floor_less_cancel)

lemma sum_list_indicator_real:
  "sum_list (map (\<lambda>x. if P x then 1 else 0) xs) = real (length (filter P xs))"
  by (induction xs) auto

lemma sum_list_le_count_pos:
  assumes "\<forall>r \<in> set rs. (0::real) \<le> r \<and> r < 1"
  shows "sum_list rs \<le> real (length (filter (\<lambda>i. 0 < rs ! i) [0..<length rs]))"
proof -
  have "sum_list rs = sum_list (map (\<lambda>i. rs ! i) [0..<length rs])"
    by (simp only: map_nth)
  also have "\<dots> \<le> sum_list (map (\<lambda>i. if 0 < rs ! i then 1 else 0) [0..<length rs])"
  proof (rule sum_list_mono)
    fix i assume "i \<in> set [0..<length rs]"
    then have "rs ! i \<in> set rs" by simp
    then have "0 \<le> rs ! i \<and> rs ! i < 1" using assms by blast
    then show "rs ! i \<le> (if 0 < rs ! i then 1 else 0)" by auto
  qed
  also have "\<dots> = real (length (filter (\<lambda>i. 0 < rs ! i) [0..<length rs]))"
    by (rule sum_list_indicator_real)
  finally show ?thesis .
qed

lemma approximate_mode_props:
  assumes T: "0 < sum_list class_counts" and D: "n_draws \<le> sum_list class_counts"
  shows "length (fst (approximate_mode class_counts n_draws g)) = length class_counts \<and>
         sum_list (fst (approximate_mode class_counts n_draws g)) = n_draws \<and>
         (\<forall>i < length class_counts.
            fst (approximate_mode class_counts n_draws g) ! i \<le> class_counts ! i)"
proof -
  define t where "t = sum_list class_counts"
  define continuous where
    "continuous = map (\<lambda>c. real c / real t * real n_draws) class_counts"
  define floored where "floored = map (\<lambda>x. nat \<lfloor>x\<rfloor>) continuous"
  define remainder where "remainder = map (\<lambda>x. x - real (nat \<lfloor>x\<rfloor>)) continuous"
  define need where "need = n_draws - sum_list floored"
  define vals where "vals = rev (sort (remdups remainder))"
  have k: "length continuous = length class_counts" "length floored = length class_counts"
    "length remainder = length class_counts"
    unfolding continuous_def floored_def remainder_def by simp_all
  have c_le: "c \<le> t" if "c \<in> set class_counts" for c
    unfolding t_def using that by (simp add: member_le_sum_list)
  have cont_nth: "continuous ! i = real (class_counts ! i) / real t * real n_draws"
    if "i < length class_counts" for i
    unfolding continuous_def using that by simp
  have cont_bounds: "0 \<le> continuous ! i \<and> continuous ! i \<le> real (class_counts ! i)"
    if "i < length class_counts" for i
    unfolding cont_nth [OF that]
    using share_bounds [of t n_draws "class_counts ! i"] T D c_le [of "class_counts ! i"] that
    unfolding t_def by simp
  have cont_nonneg: "\<forall>x \<in> set continuous. 0 \<le> x"
    unfolding continuous_def by auto
  have tpos: "0 < real t" using T unfolding t_def by simp
  have "sum_list continuous = real t / real t * real n_draws"
    unfolding continuous_def sum_list_shares t_def by (rule refl)
  then have sum_cont: "sum_list continuous = real n_draws"
    using tpos by simp
  have split: "real (sum_list floored) + sum_list remainder = real n_draws"
    unfolding floored_def remainder_def
    using sum_list_floor_remainder [OF cont_nonneg] sum_cont by simp
  have rem_range: "\<forall>r \<in> set remainder. 0 \<le> r \<and> r < 1"
    unfolding remainder_def using cont_nonneg remainder_range by auto
  have rem_nonneg: "0 \<le> sum_list remainder"
    using rem_range by (intro sum_list_nonneg) auto
  have fl_le: "sum_list floored \<le> n_draws"
    using split rem_nonneg by linarith
  have need_real: "real need = sum_list remainder"
    unfolding need_def using split fl_le by linarith
  have floored_nth: "floored ! i = nat \<lfloor>continuous ! i\<rfloor>" if "i < length class_counts" for i
    unfolding floored_def using that k by simp
  have remainder_nth: "remainder ! i = continuous ! i - real (nat \<lfloor>continuous ! i\<rfloor>)"
    if "i < length class_counts" for i
    unfolding remainder_def using that k by simp
  have floored_le: "floored ! i \<le> class_counts ! i" if "i < length class_counts" for i
  proof -
    have "real (nat \<lfloor>continuous ! i\<rfloor>) \<le> continuous ! i"
      using cont_bounds [OF that] by simp
    then have "real (floored ! i) \<le> real (class_counts ! i)"
      unfolding floored_nth [OF that] using cont_bounds [OF that] by linarith
    then show ?thesis by simp
  qed
  have floored_lt: "floored ! i + 1 \<le> class_counts ! i"
    if "i < length class_counts" and "0 < remainder ! i" for i
  proof -
    have "real (floored ! i) < continuous ! i"
      using that(2) unfolding remainder_nth [OF that(1)] floored_nth [OF that(1)] by simp
    then have "real (floored ! i) < real (class_counts ! i)"
      using cont_bounds [OF that(1)] by linarith
    then show ?thesis by simp
  qed
  have am: "approximate_mode class_counts n_draws g =
      (if need > 0 then add_by_remainder remainder vals floored need g else (floored, g))"
    unfolding approximate_mode_def Let_def need_def vals_def remainder_def floored_def
      continuous_def t_def
    by (simp add: comp_def)
  show ?thesis
  proof (cases "need > 0")
    case False
    then have "sum_list floored = n_draws" using fl_le unfolding need_def by simp
    then show ?thesis unfolding am using False k floored_le by simp
  next
    case True
    have dv: "distinct vals" and sv: "sorted (rev vals)" unfolding vals_def by simp_all
    have set_vals: "set vals = set remainder" unfolding vals_def by simp
    have "filter (\<lambda>i. remainder ! i \<in> set vals \<and> 0 < remainder ! i) [0..<length remainder]
        = filter (\<lambda>i. 0 < remainder ! i) [0..<length remainder]"
      unfolding set_vals by (intro filter_cong) auto
    moreover have "real need \<le> real (length (filter (\<lambda>i. 0 < remainder ! i) [0..<length remainder]))"
      unfolding need_real using sum_list_le_count_pos [OF rem_range] .
    ultimately have need_le: "need \<le> length (filter (\<lambda>i. remainder ! i \<in> set vals \<and> 0 < remainder ! i)
        [0..<length remainder])"
      by simp
    have len: "length floored = length remainder" using k by simp
    note P = add_by_remainder_props [OF len dv sv True need_le, of g]
    define R where "R = fst (add_by_remainder remainder vals floored need g)"
    have 1: "length R = length class_counts" using P k unfolding R_def by simp
    have "sum_list R = sum_list floored + need" using P unfolding R_def by blast
    then have 2: "sum_list R = n_draws" using fl_le unfolding need_def by simp
    have 3: "R ! i \<le> class_counts ! i" if i: "i < length class_counts" for i
    proof -
      have "R ! i = floored ! i \<or> (R ! i = floored ! i + 1 \<and> 0 < remainder ! i)"
        using P i k unfolding R_def by auto
      then show ?thesis using floored_le [OF i] floored_lt [OF i] by auto
    qed
    show ?thesis unfolding am using True 1 2 3 unfolding R_def by simp
  qed
qed

lemma approximate_mode_all:
  assumes "0 < sum_list class_counts"
  shows "approximate_mode class_counts (sum_list class_counts) g = (class_counts, g)"
proof -
  have "map (\<lambda>x. nat \<lfloor>x\<rfloor>)
          (map (\<lambda>c. real c / real (sum_list class_counts) * real (sum_list class_counts)) class_counts)
        = class_counts"
    using assms by (simp add: comp_def map_idI)
  then show ?thesis
    unfolding approximate_mode_def Let_def by simp
qed

subsection \<open>The classes partition the positions\<close>

lemma mset_filter_disj:
  "(\<And>x. x \<in> set xs \<Longrightarrow> \<not> (P x \<and> Q x)) \<Longrightarrow>
   mset (filter P xs) + mset (filter Q xs) = mset (filter (\<lambda>x. P x \<or> Q x) xs)"
  by (induction xs) auto

lemma mset_concat_classes:
  assumes "distinct cs"
  shows "mset (concat (map (\<lambda>c. filter (\<lambda>x. f x = c) xs) cs))
           = mset (filter (\<lambda>x. f x \<in> set cs) xs)"
  using assms
proof (induction cs)
  case Nil
  show ?case by simp
next
  case (Cons c cs)
  have "mset (concat (map (\<lambda>c. filter (\<lambda>x. f x = c) xs) (c # cs)))
      = mset (filter (\<lambda>x. f x = c) xs) + mset (filter (\<lambda>x. f x \<in> set cs) xs)"
    using Cons by simp
  also have "\<dots> = mset (filter (\<lambda>x. f x = c \<or> f x \<in> set cs) xs)"
    using Cons.prems by (intro mset_filter_disj) auto
  also have "\<dots> = mset (filter (\<lambda>x. f x \<in> set (c # cs)) xs)"
    by (intro arg_cong [where f = mset] filter_cong) auto
  finally show ?case .
qed

lemma mset_class_indices:
  assumes "distinct classes" and "set y \<subseteq> set classes"
  shows "mset (concat (map (\<lambda>c. filter (\<lambda>j. y ! j = c) [0..<length y]) classes))
           = mset [0..<length y]"
proof -
  have "filter (\<lambda>j. y ! j \<in> set classes) [0..<length y] = [0..<length y]"
    using assms(2) by (auto simp: filter_id_conv)
  then show ?thesis
    using mset_concat_classes [OF assms(1), of "\<lambda>j. y ! j" "[0..<length y]"] by simp
qed

lemma length_class_indices:
  "length (filter (\<lambda>j. y ! j = c) [0..<length y]) = count_list y c"
proof -
  have "count_list y c = length (filter ((=) c) (map (\<lambda>j. y ! j) [0..<length y]))"
    unfolding count_list_eq_length_filter by (simp only: map_nth)
  also have "\<dots> = length (filter (\<lambda>j. y ! j = c) [0..<length y])"
    unfolding filter_map length_map comp_def
    by (intro arg_cong [where f = length] filter_cong) auto
  finally show ?thesis by simp
qed

lemma sum_class_counts:
  assumes "distinct classes" and "set y \<subseteq> set classes"
  shows "sum_list (map (count_list y) classes) = length y"
proof -
  have "size (mset (concat (map (\<lambda>c. filter (\<lambda>j. y ! j = c) [0..<length y]) classes)))
      = size (mset [0..<length y])"
    using mset_class_indices [OF assms] by (rule arg_cong)
  then have "length (concat (map (\<lambda>c. filter (\<lambda>j. y ! j = c) [0..<length y]) classes)) = length y"
    by (simp del: mset_upt mset_concat)
  then show ?thesis
    by (simp add: length_concat comp_def length_class_indices)
qed

lemma sum_list_remaining:
  "length ns = length cs \<Longrightarrow> \<forall>j < length cs. ns ! j \<le> cs ! j \<Longrightarrow>
   sum_list (map2 (-) cs ns) + sum_list ns = sum_list (cs :: nat list)"
proof (induction cs arbitrary: ns)
  case Nil
  then show ?case by simp
next
  case (Cons c cs)
  then obtain n ns' where ns: "ns = n # ns'" by (cases ns) auto
  have "n \<le> c" using Cons.prems(2) ns by auto
  moreover have "\<forall>j < length cs. ns' ! j \<le> cs ! j" using Cons.prems(2) ns by auto
  moreover have "length ns' = length cs" using Cons.prems(1) ns by simp
  ultimately show ?case using Cons.IH [of ns'] ns by simp
qed

subsection \<open>The loop over the classes\<close>

lemma split_classes_props:
  assumes "length ixs = length cs" and "length ns = length cs" and "length ts = length cs"
    and "\<forall>j < length cs. length (ixs ! j) = cs ! j \<and> ns ! j \<le> cs ! j \<and> ts ! j = cs ! j - ns ! j"
  shows "mset (fst (split_classes cs ixs ns ts train test g))
           + mset (fst (snd (split_classes cs ixs ns ts train test g)))
           = mset train + mset test + mset (concat ixs) \<and>
         length (fst (split_classes cs ixs ns ts train test g)) = length train + sum_list ns \<and>
         length (fst (snd (split_classes cs ixs ns ts train test g))) = length test + sum_list ts"
  using assms
proof (induction cs arbitrary: ixs ns ts train test g)
  case Nil
  then show ?case by simp
next
  case (Cons c cs)
  obtain ix ixs' where ixs: "ixs = ix # ixs'" using Cons.prems(1) by (cases ixs) auto
  obtain n ns' where ns: "ns = n # ns'" using Cons.prems(2) by (cases ns) auto
  obtain t ts' where ts: "ts = t # ts'" using Cons.prems(3) by (cases ts) auto
  have hd: "length ix = c" "n \<le> c" "t = c - n"
    using Cons.prems(4) [rule_format, of 0] ixs ns ts by simp_all
  have tl: "\<forall>j < length cs. length (ixs' ! j) = cs ! j \<and> ns' ! j \<le> cs ! j \<and> ts' ! j = cs ! j - ns' ! j"
  proof (intro allI impI)
    fix j assume "j < length cs"
    then show "length (ixs' ! j) = cs ! j \<and> ns' ! j \<le> cs ! j \<and> ts' ! j = cs ! j - ns' ! j"
      using Cons.prems(4) [rule_format, of "Suc j"] ixs ns ts by simp
  qed
  have lens: "length ixs' = length cs" "length ns' = length cs" "length ts' = length cs"
    using Cons.prems(1-3) ixs ns ts by simp_all
  define perm where "perm = take_clip ix (fst (permutation [0..<c] g))"
  define g' where "g' = snd (permutation [0..<c] g)"
  have mperm: "mset perm = mset ix"
    unfolding perm_def using take_clip_permutation [of ix g] hd(1) by simp
  have lperm: "length perm = c"
    using mperm hd(1) by (metis size_mset)
  have dr: "take t (drop n perm) = drop n perm"
    using lperm hd(3) by simp
  have parts: "mset (take n perm) + mset (drop n perm) = mset ix"
    using mperm by (metis append_take_drop_id mset_append)
  have unfold: "split_classes (c # cs) ixs ns ts train test g =
      split_classes cs ixs' ns' ts' (train @ take n perm) (test @ take t (drop n perm)) g'"
    unfolding ixs ns ts perm_def g'_def by (simp add: split_def Let_def)
  note IH = Cons.IH [OF lens tl, of "train @ take n perm" "test @ take t (drop n perm)" g']
  have ltake: "length (take n perm) = n" using lperm hd(2) by simp
  have ldrop: "length (drop n perm) = t" using lperm hd(3) by simp
  show ?case
    unfolding unfold using IH parts ltake ldrop unfolding dr ixs ns ts
    by (simp add: ac_simps)
qed

subsection \<open>The stratified split\<close>

lemma classes_facts:
  "distinct (sort (remdups y))" "set y \<subseteq> set (sort (remdups y))"
  "length (sort (remdups y)) = card (set y)"
  by (simp_all add: length_remdups_card_conv)

lemma stratified_shuffle_split_cases:
  fixes y :: "int list"
  defines "classes \<equiv> sort (remdups y)"
  defines "class_counts \<equiv> map (count_list y) (sort (remdups y))"
  assumes "0 < n_train" and "n_train + n_test = length y"
  shows "(list_ex (\<lambda>c. c < 2) class_counts \<or> n_train < length classes \<or> n_test < length classes
            \<longrightarrow> (\<exists>msg. stratified_shuffle_split y n_train n_test g = Inl (ValueError msg))) \<and>
         (\<not> list_ex (\<lambda>c. c < 2) class_counts \<and> length classes \<le> n_train \<and> length classes \<le> n_test
            \<longrightarrow> (\<exists>train test. stratified_shuffle_split y n_train n_test g = Inr (train, test) \<and>
                   mset train + mset test = mset [0..<length y] \<and>
                   length train = n_train \<and> length test = n_test))"
proof (intro conjI impI)
  assume "list_ex (\<lambda>c. c < 2) class_counts \<or> n_train < length classes \<or> n_test < length classes"
  then show "\<exists>msg. stratified_shuffle_split y n_train n_test g = Inl (ValueError msg)"
    unfolding stratified_shuffle_split_def Let_def classes_def class_counts_def by auto
next
  assume ok: "\<not> list_ex (\<lambda>c. c < 2) class_counts \<and> length classes \<le> n_train \<and> length classes \<le> n_test"
  define class_indices where
    "class_indices = map (\<lambda>c. filter (\<lambda>j. y ! j = c) [0..<length y]) (sort (remdups y))"
  define am1 where "am1 = approximate_mode class_counts n_train g"
  define n_i where "n_i = fst am1"
  define remaining where "remaining = map2 (-) class_counts n_i"
  define am2 where "am2 = approximate_mode remaining n_test (snd am1)"
  define sc where "sc = split_classes class_counts class_indices n_i (fst am2) [] [] (snd am2)"
  define p1 where "p1 = permutation (fst sc) (snd (snd sc))"
  define p2 where "p2 = permutation (fst (snd sc)) (snd p1)"
  have res: "stratified_shuffle_split y n_train n_test g = Inr (fst p1, fst p2)"
    unfolding stratified_shuffle_split_def Let_def
    using ok unfolding classes_def class_counts_def
    by (simp add: split_def p1_def p2_def sc_def am2_def remaining_def n_i_def am1_def
        class_indices_def class_counts_def)
  have total: "sum_list class_counts = length y"
    unfolding class_counts_def using sum_class_counts [OF classes_facts(1,2)] .
  have T: "0 < sum_list class_counts" and D: "n_train \<le> sum_list class_counts"
    using assms(3,4) total by linarith+
  have k: "length class_counts = length classes" "length class_indices = length classes"
    unfolding class_counts_def class_indices_def classes_def by simp_all
  have ne: "classes \<noteq> []"
  proof
    assume "classes = []"
    then have "y = []" unfolding classes_def using classes_facts(2) [of y] by simp
    then show False using assms(3,4) by simp
  qed
  then have test_pos: "0 < n_test" using ok by (cases classes) auto
  note P1 = approximate_mode_props [OF T D, of g, folded am1_def n_i_def]
  have len_ni: "length n_i = length class_counts" using P1 by blast
  have sum_ni: "sum_list n_i = n_train" using P1 by blast
  have ni_le: "\<forall>j < length class_counts. n_i ! j \<le> class_counts ! j" using P1 by blast
  have "sum_list remaining + sum_list n_i = sum_list class_counts"
    unfolding remaining_def using sum_list_remaining [OF len_ni ni_le] .
  then have sum_rem: "sum_list remaining = n_test"
    using sum_ni total assms(4) by linarith
  have am2_eq: "am2 = (remaining, snd am1)"
    unfolding am2_def using approximate_mode_all [of remaining "snd am1"] sum_rem test_pos
    by simp
  have len_rem: "length remaining = length class_counts"
    unfolding remaining_def using len_ni by simp
  have per_class: "\<forall>j < length class_counts.
      length (class_indices ! j) = class_counts ! j \<and> n_i ! j \<le> class_counts ! j \<and>
      remaining ! j = class_counts ! j - n_i ! j"
  proof (intro allI impI)
    fix j assume j: "j < length class_counts"
    have "length (class_indices ! j) = class_counts ! j"
      unfolding class_indices_def class_counts_def using j k classes_def
      by (simp add: length_class_indices)
    moreover have "remaining ! j = class_counts ! j - n_i ! j"
      unfolding remaining_def using j len_ni by simp
    ultimately show "length (class_indices ! j) = class_counts ! j \<and> n_i ! j \<le> class_counts ! j \<and>
      remaining ! j = class_counts ! j - n_i ! j"
      using ni_le j by blast
  qed
  have len_ci: "length class_indices = length class_counts" using k by simp
  note S = split_classes_props [OF len_ci len_ni len_rem per_class, of "[]" "[]" "snd am1"]
  have sc_eq: "sc = split_classes class_counts class_indices n_i remaining [] [] (snd am1)"
    unfolding sc_def am2_eq by simp
  have "mset (concat class_indices) = mset [0..<length y]"
    unfolding class_indices_def using mset_class_indices [OF classes_facts(1,2)] .
  then have m: "mset (fst sc) + mset (fst (snd sc)) = mset [0..<length y]"
    unfolding sc_eq using S by simp
  have l1: "length (fst sc) = n_train" unfolding sc_eq using S sum_ni by simp
  have l2: "length (fst (snd sc)) = n_test" unfolding sc_eq using S sum_rem by simp
  have "mset (fst p1) + mset (fst p2) = mset [0..<length y]"
    unfolding p1_def p2_def using m by simp
  moreover have "length (fst p1) = n_train" unfolding p1_def using l1 by simp
  moreover have "length (fst p2) = n_test" unfolding p2_def using l2 by simp
  ultimately show "\<exists>train test. stratified_shuffle_split y n_train n_test g = Inr (train, test) \<and>
      mset train + mset test = mset [0..<length y] \<and> length train = n_train \<and> length test = n_test"
    using res by blast
qed

subsection \<open>The split of the data frame\<close>

lemma with_stage_rows:
  assumes "\<forall>i \<in> set tr. i < length df"
  shows "with_stage (map (\<lambda>i. enumerate 0 (map feature_columns df) ! i) tr)
                    (map (\<lambda>i. enumerate 0 (map stage df) ! i) tr)
           = map (\<lambda>i. (i, df ! i)) tr"
proof -
  have row: "\<lparr>heartRate = x_heartRate (feature_columns s), hrv = x_hrv (feature_columns s),
              movement = x_movement (feature_columns s),
              bloodOxygen = x_bloodOxygen (feature_columns s),
              temperature = x_temperature (feature_columns s),
              breathingRate = x_breathingRate (feature_columns s),
              timeOfNight = x_timeOfNight (feature_columns s),
              previousStage = x_previousStage (feature_columns s), stage = stage s\<rparr> = s" for s
    by (cases s) (simp add: feature_columns_def)
  have "with_stage (map (\<lambda>i. enumerate 0 (map feature_columns df) ! i) tr)
                   (map (\<lambda>i. enumerate 0 (map stage df) ! i) tr)
      = map (\<lambda>i. (case enumerate 0 (map feature_columns df) ! i of (l, x) \<Rightarrow>
             \<lambda>(l', s). (l, \<lparr>heartRate = x_heartRate x, hrv = x_hrv x, movement = x_movement x,
                 bloodOxygen = x_bloodOxygen x, temperature = x_temperature x,
                 breathingRate = x_breathingRate x, timeOfNight = x_timeOfNight x,
                 previousStage = x_previousStage x, stage = s\<rparr>))
             (enumerate 0 (map stage df) ! i)) tr"
    unfolding with_stage_def by (simp add: zip_map_map zip_same_conv_map comp_def split_def)
  also have "\<dots> = map (\<lambda>i. (i, df ! i)) tr"
  proof (rule map_cong [OF refl])
    fix i assume "i \<in> set tr"
    then have i: "i < length df" using assms by blast
    then show "(case enumerate 0 (map feature_columns df) ! i of (l, x) \<Rightarrow>
             \<lambda>(l', s). (l, \<lparr>heartRate = x_heartRate x, hrv = x_hrv x, movement = x_movement x,
                 bloodOxygen = x_bloodOxygen x, temperature = x_temperature x,
                 breathingRate = x_breathingRate x, timeOfNight = x_timeOfNight x,
                 previousStage = x_previousStage x, stage = s\<rparr>))
             (enumerate 0 (map stage df) ! i) = (i, df ! i)"
      by (simp add: nth_enumerate_eq row)
  qed
  finally show ?thesis .
qed

lemma test_count_le: "nat \<lceil>0.2 * real n\<rceil> \<le> n"
proof -
  have "0.2 * real n \<le> real n" by simp
  then have "\<lceil>0.2 * real n\<rceil> \<le> int n" by (simp add: ceiling_le_iff)
  then show ?thesis by simp
qed

lemma create_ml_training_data_unfold:
  "create_ml_training_data random_state df =
     (if df = [] then Inl (KeyError ''None of the feature columns are in the [columns]'')
      else if length df - nat \<lceil>0.2 * real (length df)\<rceil> = 0 then
        Inl (ValueError ''The resulting train set will be empty. Adjust any of the aforementioned parameters.'')
      else
        case stratified_shuffle_split (map stage df) (length df - nat \<lceil>0.2 * real (length df)\<rceil>)
               (nat \<lceil>0.2 * real (length df)\<rceil>) (random_state 42) of
          Inl e \<Rightarrow> Inl e
        | Inr (tr, te) \<Rightarrow>
            Inr (with_stage (map (\<lambda>i. enumerate 0 (map feature_columns df) ! i) tr)
                            (map (\<lambda>i. enumerate 0 (map stage df) ! i) tr),
                 with_stage (map (\<lambda>i. enumerate 0 (map feature_columns df) ! i) te)
                            (map (\<lambda>i. enumerate 0 (map stage df) ! i) te)))"
  unfolding create_ml_training_data_def train_test_split_def Let_def
  by (simp add: map_snd_enumerate split: sum.splits prod.splits)

lemma create_ml_training_data_cases:
  fixes df :: "sample list"
  defines "y \<equiv> map stage df"
  defines "n_test \<equiv> nat \<lceil>0.2 * real (length df)\<rceil>"
  defines "n_train \<equiv> length df - nat \<lceil>0.2 * real (length df)\<rceil>"
  shows "((\<exists>c \<in> set y. count_list y c < 2) \<or> n_train < card (set y) \<or> n_test < card (set y)
            \<longrightarrow> (\<exists>msg. create_ml_training_data random_state df = Inl (ValueError msg))) \<and>
         ((\<forall>c \<in> set y. 2 \<le> count_list y c) \<and> card (set y) \<le> n_train \<and> card (set y) \<le> n_test
            \<and> 0 < n_train
            \<longrightarrow> (\<exists>tr te. create_ml_training_data random_state df
                     = Inr (map (\<lambda>i. (i, df ! i)) tr, map (\<lambda>i. (i, df ! i)) te) \<and>
                   mset tr + mset te = mset [0..<length df] \<and>
                   length tr = n_train \<and> length te = n_test))"
proof (cases "n_train = 0")
  case True
  show ?thesis
  proof (cases "df = []")
    case True
    then show ?thesis unfolding y_def n_train_def n_test_def by simp
  next
    case False
    then have "create_ml_training_data random_state df = Inl (ValueError
        ''The resulting train set will be empty. Adjust any of the aforementioned parameters.'')"
      unfolding create_ml_training_data_unfold using True unfolding n_train_def by simp
    then show ?thesis using True by simp
  qed
next
  case False
  then have pos: "0 < n_train" by simp
  have nonempty: "df \<noteq> []" using pos unfolding n_train_def by auto
  have sum: "n_train + n_test = length y"
    unfolding n_train_def n_test_def y_def using test_count_le [of "length df"] by simp
  have ex: "list_ex (\<lambda>c. c < 2) (map (count_list y) (sort (remdups y)))
      \<longleftrightarrow> (\<exists>c \<in> set y. count_list y c < 2)"
    by (simp add: list_ex_iff)
  note C = stratified_shuffle_split_cases [OF pos sum, of "random_state 42",
      unfolded ex classes_facts(3)]
  show ?thesis
  proof (intro conjI impI)
    assume "(\<exists>c \<in> set y. count_list y c < 2) \<or> n_train < card (set y) \<or> n_test < card (set y)"
    then obtain msg where "stratified_shuffle_split y n_train n_test (random_state 42)
        = Inl (ValueError msg)"
      using C by blast
    then show "\<exists>msg. create_ml_training_data random_state df = Inl (ValueError msg)"
      unfolding create_ml_training_data_unfold using False nonempty
      unfolding n_train_def n_test_def y_def by simp
  next
    assume "(\<forall>c \<in> set y. 2 \<le> count_list y c) \<and> card (set y) \<le> n_train \<and> card (set y) \<le> n_test
        \<and> 0 < n_train"
    then have "\<not> (\<exists>c \<in> set y. count_list y c < 2) \<and> card (set y) \<le> n_train
        \<and> card (set y) \<le> n_test"
      by (auto simp: not_less)
    then obtain tr te where
      R: "stratified_shuffle_split y n_train n_test (random_state 42) = Inr (tr, te)"
      and m: "mset tr + mset te = mset [0..<length y]"
      and l: "length tr = n_train" "length te = n_test"
      using C by blast
    have "set_mset (mset tr + mset te) = {0..<length df}"
      unfolding m y_def by simp
    then have b: "\<forall>i \<in> set tr. i < length df" "\<forall>i \<in> set te. i < length df"
      by auto
    have "create_ml_training_data random_state df
        = Inr (map (\<lambda>i. (i, df ! i)) tr, map (\<lambda>i. (i, df ! i)) te)"
      unfolding create_ml_training_data_unfold using False R nonempty
      unfolding n_train_def n_test_def y_def
      by (simp add: with_stage_rows [OF b(1)] with_stage_rows [OF b(2)])
    then show "\<exists>tr te. create_ml_training_data random_state df
        = Inr (map (\<lambda>i. (i, df ! i)) tr, map (\<lambda>i. (i, df ! i)) te) \<and>
        mset tr + mset te = mset [0..<length df] \<and> length tr = n_train \<and> length te = n_test"
      using m l unfolding y_def by auto
  qed
qed

lemma create_ml_training_data_Inr:
  assumes "create_ml_training_data random_state df = Inr (train, test)"
  shows "\<exists>tr te. train = map (\<lambda>i. (i, df ! i)) tr \<and> test = map (\<lambda>i. (i, df ! i)) te \<and>
           mset tr + mset te = mset [0..<length df] \<and>
           length tr = length df - nat \<lceil>0.2 * real (length df)\<rceil> \<and>
           length te = nat \<lceil>0.2 * real (length df)\<rceil>"
proof -
  let ?y = "map stage df"
  let ?n_test = "nat \<lceil>0.2 * real (length df)\<rceil>"
  let ?n_train = "length df - nat \<lceil>0.2 * real (length df)\<rceil>"
  note C = create_ml_training_data_cases [of df random_state]
  have not_err: "\<not> ((\<exists>c \<in> set ?y. count_list ?y c < 2) \<or> ?n_train < card (set ?y)
      \<or> ?n_test < card (set ?y))"
    using C assms by auto
  have "0 < ?n_train"
  proof (rule ccontr)
    assume "\<not> 0 < ?n_train"
    then have "\<exists>e. create_ml_training_data random_state df = Inl e"
      unfolding create_ml_training_data_unfold by simp
    then show False using assms by auto
  qed
  then have "(\<forall>c \<in> set ?y. 2 \<le> count_list ?y c) \<and> card (set ?y) \<le> ?n_train
      \<and> card (set ?y) \<le> ?n_test \<and> 0 < ?n_train"
    using not_err by (auto simp: not_less)
  then obtain tr te where
    "create_ml_training_data random_state df
       = Inr (map (\<lambda>i. (i, df ! i)) tr, map (\<lambda>i. (i, df ! i)) te)"
    "mset tr + mset te = mset [0..<length df]" "length tr = ?n_train" "length te = ?n_test"
    using C by blast
  then show ?thesis using assms by auto
qed

subsection \<open>The claims about the split\<close>

lemma enumerate_rows: "enumerate 0 df = map (\<lambda>i. (i, df ! i)) [0..<length df]"
  by (rule nth_equalityI) (simp_all add: nth_enumerate_eq)

lemma count_list_replicate: "count_list (replicate n x) y = (if x = y then n else 0)"
  by (induction n) auto

lemma train_count_pos: "2 \<le> n \<Longrightarrow> 0 < n - nat \<lceil>0.2 * real n\<rceil>"
proof -
  assume "2 \<le> n"
  then have "0.2 * real n \<le> real_of_int (int n - 1)" by simp
  then have "\<lceil>0.2 * real n\<rceil> \<le> int n - 1" by (rule ceiling_le)
  then show ?thesis by linarith
qed

text \<open>The split of the two-class frame when the random state hands out zeros only.\<close>

lemma two_class_indices:
  "stratified_shuffle_split [1, 1, 1, 1, 1, 2, 2, 2, 2, 2] 8 2 (sconst 0)
     = Inr ([2, 3, 4, 6, 7, 8, 9, 1], [5, 0])"
  by (simp add: stratified_shuffle_split_def Let_def approximate_mode_def split_def
      permutation_def take_clip_def)

lemma two_class_frame_split:
  "create_ml_training_data (\<lambda>seed. sconst 0) two_class_frame
     = Inr (map (\<lambda>i. (i, two_class_frame ! i)) [2, 3, 4, 6, 7, 8, 9, 1],
            map (\<lambda>i. (i, two_class_frame ! i)) [5, 0])"
proof -
  have len: "length two_class_frame = 10" by (simp add: two_class_frame_def)
  have st: "map stage two_class_frame = [1, 1, 1, 1, 1, 2, 2, 2, 2, 2]"
    by (simp add: two_class_frame_def example_sample_def)
  have ne: "two_class_frame \<noteq> []" using len by auto
  have nt: "nat \<lceil>0.2 * real (length two_class_frame)\<rceil> = 2" unfolding len by simp
  have tr: "\<forall>i \<in> set [2, 3, 4, 6, 7, 8, 9, 1::nat]. i < length two_class_frame"
    unfolding len by simp
  have te: "\<forall>i \<in> set [5, 0::nat]. i < length two_class_frame"
    unfolding len by simp
  have "create_ml_training_data (\<lambda>seed. sconst 0) two_class_frame
      = Inr (with_stage (map (\<lambda>i. enumerate 0 (map feature_columns two_class_frame) ! i) [2, 3, 4, 6, 7, 8, 9, 1])
                        (map (\<lambda>i. enumerate 0 (map stage two_class_frame) ! i) [2, 3, 4, 6, 7, 8, 9, 1]),
             with_stage (map (\<lambda>i. enumerate 0 (map feature_columns two_class_frame) ! i) [5, 0])
                        (map (\<lambda>i. enumerate 0 (map stage two_class_frame) ! i) [5, 0]))"
    unfolding create_ml_training_data_unfold nt unfolding st len
    using ne by (simp add: two_class_indices)
  then show ?thesis
    unfolding with_stage_rows [OF tr] with_stage_rows [OF te] .
qed

text \<open>
  Claim C2 (the train and test subsets are disjoint and their multiset union is the input
  data set). Whenever the split accepts a data frame and returns \<open>(train, test)\<close>, each a
  list of rows with their row labels: the rows of train and test together are, as a
  multiset, exactly the labelled rows of the frame, so no row is dropped and none is
  duplicated; without the labels they are the multiset of the input samples; and no row
  label occurs in both train and test, nor twice in either.
\<close>

theorem split_is_partition:
  assumes "create_ml_training_data random_state df = Inr (train, test)"
  shows "mset train + mset test = mset (enumerate 0 df) \<and>
         mset (map snd train) + mset (map snd test) = mset df \<and>
         set (map fst train) \<inter> set (map fst test) = {} \<and>
         distinct (map fst train @ map fst test)"
proof -
  obtain tr te where train: "train = map (\<lambda>i. (i, df ! i)) tr"
    and test: "test = map (\<lambda>i. (i, df ! i)) te"
    and m: "mset tr + mset te = mset [0..<length df]"
    using create_ml_training_data_Inr [OF assms] by blast
  have "mset train + mset test = image_mset (\<lambda>i. (i, df ! i)) (mset tr + mset te)"
    unfolding train test by simp
  also have "\<dots> = mset (map (\<lambda>i. (i, df ! i)) [0..<length df])"
    unfolding m by (simp del: mset_upt)
  finally have 1: "mset train + mset test = mset (enumerate 0 df)"
    unfolding enumerate_rows .
  have "mset (map snd train) + mset (map snd test) = image_mset snd (mset train + mset test)"
    by simp
  also have "\<dots> = image_mset snd (mset (enumerate 0 df))" unfolding 1 by (rule refl)
  also have "\<dots> = mset df" by (metis map_snd_enumerate mset_map)
  finally have 2: "mset (map snd train) + mset (map snd test) = mset df" .
  have fst: "map fst train = tr" "map fst test = te"
    unfolding train test by (simp_all add: comp_def)
  have "mset (tr @ te) = mset [0..<length df]" using m by simp
  then have 4: "distinct (tr @ te)"
    by (metis distinct_upt mset_eq_imp_distinct_iff)
  then have 3: "set tr \<inter> set te = {}" by simp
  show ?thesis using 1 2 3 4 unfolding fst by blast
qed

theorem split_is_partition_witness:
  "create_ml_training_data (\<lambda>seed. sconst 0) two_class_frame
     = Inr (map (\<lambda>i. (i, two_class_frame ! i)) [2, 3, 4, 6, 7, 8, 9, 1],
            map (\<lambda>i. (i, two_class_frame ! i)) [5, 0]) \<and>
   (mset (map (\<lambda>i. (i, two_class_frame ! i)) [2, 3, 4, 6, 7, 8, 9, 1])
      + mset (map (\<lambda>i. (i, two_class_frame ! i)) [5, 0]) = mset (enumerate 0 two_class_frame) \<and>
    mset (map snd (map (\<lambda>i. (i, two_class_frame ! i)) [2, 3, 4, 6, 7, 8, 9, 1]))
      + mset (map snd (map (\<lambda>i. (i, two_class_frame ! i)) [5, 0])) = mset two_class_frame \<and>
    set (map fst (map (\<lambda>i. (i, two_class_frame ! i)) [2, 3, 4, 6, 7, 8, 9, 1]))
      \<inter> set (map fst (map (\<lambda>i. (i, two_class_frame ! i)) [5, 0])) = {} \<and>
    distinct (map fst (map (\<lambda>i. (i, two_class_frame ! i)) [2, 3, 4, 6, 7, 8, 9, 1])
      @ map fst (map (\<lambda>i. (i, two_class_frame ! i)) [5, 0])))"
  using two_class_frame_split split_is_partition [OF two_class_frame_split]
  by (rule conjI)

text \<open>
  Claim C6 (a stage class with fewer than two members makes the split fail with a
  configuration error, and nothing is returned). If some class that occurs in the stage
  column has fewer than two rows, \<^verbatim>\<open>create_ml_training_data\<close> raises \<^verbatim>\<open>ValueError\<close>, the
  error the splitter raises for a configuration it cannot stratify, and returns no train
  or test subset; for a frame of at least two rows the error is the one about the least
  populated class.
\<close>

theorem small_class_rejected:
  assumes "\<exists>c \<in> set (map stage df). count_list (map stage df) c < 2"
  shows "(\<exists>msg. create_ml_training_data random_state df = Inl (ValueError msg)) \<and>
         (\<forall>train test. create_ml_training_data random_state df \<noteq> Inr (train, test)) \<and>
         (2 \<le> length df \<longrightarrow> create_ml_training_data random_state df = Inl (ValueError
            ''The least populated class in y has only 1 member, which is too few. The minimum number of groups for any class cannot be less than 2.''))"
proof -
  obtain msg where e: "create_ml_training_data random_state df = Inl (ValueError msg)"
    using create_ml_training_data_cases [of df random_state] assms by blast
  have "create_ml_training_data random_state df = Inl (ValueError
      ''The least populated class in y has only 1 member, which is too few. The minimum number of groups for any class cannot be less than 2.'')"
    if "2 \<le> length df"
  proof -
    have ne: "df \<noteq> []" using that by auto
    have pos: "length df - nat \<lceil>0.2 * real (length df)\<rceil> \<noteq> 0"
      using train_count_pos [OF that] by simp
    have "list_ex (\<lambda>c. c < 2) (map (count_list (map stage df)) (sort (remdups (map stage df))))"
      using assms by (simp add: list_ex_iff)
    then have "stratified_shuffle_split (map stage df) (length df - nat \<lceil>0.2 * real (length df)\<rceil>)
        (nat \<lceil>0.2 * real (length df)\<rceil>) (random_state 42) = Inl (ValueError
      ''The least populated class in y has only 1 member, which is too few. The minimum number of groups for any class cannot be less than 2.'')"
      unfolding stratified_shuffle_split_def Let_def by simp
    then show ?thesis
      unfolding create_ml_training_data_unfold using ne pos by simp
  qed
  then show ?thesis using e by simp
qed

theorem small_class_rejected_witness:
  "(\<exists>c \<in> set (map stage singleton_class_frame). count_list (map stage singleton_class_frame) c < 2) \<and>
   2 \<le> length singleton_class_frame \<and>
   create_ml_training_data (\<lambda>seed. sconst 0) singleton_class_frame = Inl (ValueError
     ''The least populated class in y has only 1 member, which is too few. The minimum number of groups for any class cannot be less than 2.'')"
proof -
  have h: "\<exists>c \<in> set (map stage singleton_class_frame). count_list (map stage singleton_class_frame) c < 2"
    by (simp add: singleton_class_frame_def example_sample_def)
  have l: "2 \<le> length singleton_class_frame" by (simp add: singleton_class_frame_def)
  show ?thesis using small_class_rejected [OF h, of "\<lambda>seed. sconst 0"] h l by blast
qed

text \<open>
  Claim C9 (10000 samples and test fraction 0.2 give exactly 8000 train rows and exactly
  2000 test rows). For every frame of 10000 rows, whatever the split returns has 8000 train
  rows and 2000 test rows; and the split does return, whenever every class that occurs has
  at least two rows and there are at most 2000 classes (the generator has four).
\<close>

theorem split_sizes_10000:
  assumes "length df = 10000"
  shows "(\<forall>train test. create_ml_training_data random_state df = Inr (train, test) \<longrightarrow>
            length train = 8000 \<and> length test = 2000) \<and>
         ((\<forall>c \<in> set (map stage df). 2 \<le> count_list (map stage df) c) \<and>
          card (set (map stage df)) \<le> 2000 \<longrightarrow>
            (\<exists>train test. create_ml_training_data random_state df = Inr (train, test)))"
proof -
  have nt: "nat \<lceil>0.2 * real (length df)\<rceil> = 2000" unfolding assms by simp
  have 1: "length train = 8000 \<and> length test = 2000"
    if "create_ml_training_data random_state df = Inr (train, test)" for train test
    using create_ml_training_data_Inr [OF that] unfolding nt assms by auto
  have 2: "\<exists>train test. create_ml_training_data random_state df = Inr (train, test)"
    if "(\<forall>c \<in> set (map stage df). 2 \<le> count_list (map stage df) c) \<and>
        card (set (map stage df)) \<le> 2000"
    using create_ml_training_data_cases [of df random_state] that unfolding nt assms by auto
  show ?thesis using 1 2 by blast
qed

theorem split_sizes_10000_witness:
  "length four_class_frame = 10000 \<and>
   set (map stage four_class_frame) = {0, 1, 2, 3} \<and>
   map (count_list (map stage four_class_frame)) [0, 1, 2, 3] = [2500, 2500, 2500, 2500] \<and>
   (\<exists>train test. create_ml_training_data (\<lambda>seed. sconst 0) four_class_frame = Inr (train, test) \<and>
      length train = 8000 \<and> length test = 2000)"
proof -
  have len: "length four_class_frame = 10000" by (simp add: four_class_frame_def)
  have st: "map stage four_class_frame
      = replicate 2500 0 @ replicate 2500 1 @ replicate 2500 2 @ replicate 2500 3"
    by (simp add: four_class_frame_def example_sample_def)
  have set_st: "set (map stage four_class_frame) = {0, 1, 2, 3}"
    unfolding st by auto
  have counts: "map (count_list (map stage four_class_frame)) [0, 1, 2, 3]
      = [2500, 2500, 2500, 2500]"
    unfolding st by (simp add: count_list_replicate)
  have cnt: "\<forall>c \<in> set (map stage four_class_frame). 2 \<le> count_list (map stage four_class_frame) c"
    unfolding set_st using counts by simp
  have card: "card (set (map stage four_class_frame)) \<le> 2000" unfolding set_st by simp
  have "\<exists>train test. create_ml_training_data (\<lambda>seed. sconst 0) four_class_frame = Inr (train, test) \<and>
      length train = 8000 \<and> length test = 2000"
    using split_sizes_10000 [OF len, of "\<lambda>seed. sconst 0"] cnt card by blast
  then show ?thesis using len set_st counts by blast
qed

section \<open>Properties of the metadata composer\<close>

lemma create_model_metadata_Inr:
  assumes "m ''accuracy'' = Some a" and "m ''precision'' = Some p" and "m ''recall'' = Some r"
  shows "\<exists>md. create_model_metadata m = Inr md \<and>
           accuracy (md_performance_metrics md) = a \<and>
           precision (md_performance_metrics md) = p \<and>
           recall (md_performance_metrics md) = r \<and>
           f1_score (md_performance_metrics md) = (case m ''f1'' of None \<Rightarrow> 0 | Some v \<Rightarrow> v)"
  using assms by (simp add: create_model_metadata_def getitem_def get_def)

text \<open>
  Claim C7 (\<open>f1_score\<close> defaults to 0.0). For every metrics mapping that holds accuracy,
  precision and recall, a record is composed, and its \<open>f1_score\<close> is 0.0 when the mapping
  has no \<^verbatim>\<open>f1\<close> key and the supplied value otherwise.
\<close>

theorem f1_score_default:
  assumes "m ''accuracy'' \<noteq> None" and "m ''precision'' \<noteq> None" and "m ''recall'' \<noteq> None"
  shows "\<exists>md. create_model_metadata m = Inr md \<and>
           f1_score (md_performance_metrics md) = (case m ''f1'' of None \<Rightarrow> 0.0 | Some v \<Rightarrow> v)"
proof -
  obtain a p r where "m ''accuracy'' = Some a" "m ''precision'' = Some p" "m ''recall'' = Some r"
    using assms by auto
  then show ?thesis using create_model_metadata_Inr [of m a p r] by (auto split: option.splits)
qed

theorem f1_score_default_witness:
  "example_metrics ''accuracy'' \<noteq> None \<and> example_metrics ''precision'' \<noteq> None \<and>
   example_metrics ''recall'' \<noteq> None \<and> example_metrics ''f1'' = None \<and>
   (\<exists>md. create_model_metadata example_metrics = Inr md \<and>
         f1_score (md_performance_metrics md) = 0.0)"
proof -
  have a: "example_metrics ''accuracy'' \<noteq> None" by (simp add: example_metrics_def)
  have p: "example_metrics ''precision'' \<noteq> None" by (simp add: example_metrics_def)
  have r: "example_metrics ''recall'' \<noteq> None" by (simp add: example_metrics_def)
  have f: "example_metrics ''f1'' = None" by (simp add: example_metrics_def)
  show ?thesis using f1_score_default [OF a p r] a p r f by simp
qed

text \<open>
  Claim C8 (the fixed schema and constants). Every composed record carries the eight input
  feature names in the fixed order, the four output classes, one description per feature
  (the described names are the feature names, in order), the architecture string, the
  sample counts 8000 and 2000, 100 epochs, batch size 32 and learning rate 0.001, whatever
  the metrics.
\<close>

theorem metadata_fixed_schema:
  assumes "create_model_metadata m = Inr md"
  shows "input_features (md_features md) =
           [''heartRate'', ''hrv'', ''movement'', ''bloodOxygen'',
            ''temperature'', ''breathingRate'', ''timeOfNight'', ''previousStage''] \<and>
         length (input_features (md_features md)) = 8 \<and>
         output_classes (md_features md) = [''awake'', ''light'', ''deep'', ''rem''] \<and>
         map fst (feature_descriptions (md_features md)) = input_features (md_features md) \<and>
         architecture (md_training_info md) = ''64-32-4 (ReLU activation)'' \<and>
         training_samples (md_training_info md) = 8000 \<and>
         validation_samples (md_training_info md) = 2000 \<and>
         epochs (md_training_info md) = 100 \<and>
         batch_size (md_training_info md) = 32 \<and>
         learning_rate (md_training_info md) = 0.001"
  using assms
  by (auto simp: create_model_metadata_def getitem_def split: option.splits)

theorem metadata_fixed_schema_witness:
  "\<exists>md. create_model_metadata example_metrics = Inr md \<and>
        input_features (md_features md) =
           [''heartRate'', ''hrv'', ''movement'', ''bloodOxygen'',
            ''temperature'', ''breathingRate'', ''timeOfNight'', ''previousStage''] \<and>
        output_classes (md_features md) = [''awake'', ''light'', ''deep'', ''rem''] \<and>
        training_samples (md_training_info md) = 8000 \<and>
        validation_samples (md_training_info md) = 2000"
proof -
  obtain md where md: "create_model_metadata example_metrics = Inr md"
    by (simp add: create_model_metadata_def getitem_def example_metrics_def)
  show ?thesis using metadata_fixed_schema [OF md] md by simp
qed

text \<open>
  Claim C10 (accuracy, precision and recall are required, only \<^verbatim>\<open>f1\<close> is optional). A
  mapping that misses one of the three keys raises \<^verbatim>\<open>KeyError\<close> for a missing key and
  returns no record; a mapping that holds the three returns a record, with or without
  \<^verbatim>\<open>f1\<close>.
\<close>

theorem required_metric_keys:
  "(m ''accuracy'' = None \<or> m ''precision'' = None \<or> m ''recall'' = None \<longrightarrow>
      (\<exists>k \<in> {''accuracy'', ''precision'', ''recall''}.
         m k = None \<and> create_model_metadata m = Inl (KeyError k))) \<and>
   (m ''accuracy'' \<noteq> None \<and> m ''precision'' \<noteq> None \<and> m ''recall'' \<noteq> None \<longrightarrow>
      (\<exists>md. create_model_metadata m = Inr md))"
  by (auto simp: create_model_metadata_def getitem_def split: option.splits)

theorem required_metric_keys_witness:
  "(let m = [''accuracy'' \<mapsto> 0.91, ''recall'' \<mapsto> 0.85, ''f1'' \<mapsto> (0.86::real)] in
      m ''precision'' = None \<and> create_model_metadata m = Inl (KeyError ''precision'')) \<and>
   (example_metrics ''accuracy'' \<noteq> None \<and> example_metrics ''precision'' \<noteq> None \<and>
    example_metrics ''recall'' \<noteq> None \<and> example_metrics ''f1'' = None \<and>
    (\<exists>md. create_model_metadata example_metrics = Inr md))"
proof -
  let ?m = "[''accuracy'' \<mapsto> 0.91, ''recall'' \<mapsto> 0.85, ''f1'' \<mapsto> (0.86::real)]"
  have 1: "?m ''precision'' = None" by simp
  have 2: "?m ''accuracy'' \<noteq> None" "?m ''recall'' \<noteq> None" by simp_all
  have 3: "example_metrics ''accuracy'' \<noteq> None \<and> example_metrics ''precision'' \<noteq> None \<and>
    example_metrics ''recall'' \<noteq> None \<and> example_metrics ''f1'' = None"
    by (simp add: example_metrics_def)
  from required_metric_keys [of ?m] 1 2
  have "create_model_metadata ?m = Inl (KeyError ''precision'')" by auto
  then show ?thesis
    using required_metric_keys [of example_metrics] 1 3 by (simp add: Let_def)
qed

end
